theory Spec2Isabelle
  imports Main "HOL-Library.AList" "HOL-Library.Sublist"
begin

section \<open>Strings\<close>

text \<open>
  A Python \<open>str\<close> is modelled as a \<open>string\<close> whose characters stand for the code points
  U+0000 .. U+00FF. On that range \<open>str.isspace\<close> (used by \<open>str.strip\<close> and by the regular
  expression class \<open>\s\<close>) holds for the twelve characters below, and \<open>str.lower\<close> moves
  the ASCII capitals and the Latin-1 capitals (all of U+00C0 .. U+00DE but the
  multiplication sign U+00D7) up by 32.
\<close>

definition isspace :: "char \<Rightarrow> bool" where
  "isspace c = (c \<in> set [CHR 0x09, CHR 0x0A, CHR 0x0B, CHR 0x0C, CHR 0x0D,
                          CHR 0x1C, CHR 0x1D, CHR 0x1E, CHR 0x1F, CHR 0x20,
                          CHR 0x85, CHR 0xA0])"

definition strip :: "string \<Rightarrow> string" where
  "strip s = rev (dropWhile isspace (rev (dropWhile isspace s)))"

definition lower_char :: "char \<Rightarrow> char" where
  "lower_char c =
     (let n = (of_char c :: nat)
      in if (65 \<le> n \<and> n \<le> 90) \<or> (192 \<le> n \<and> n \<le> 214) \<or> (216 \<le> n \<and> n \<le> 222)
         then char_of (n + 32) else c)"

definition lower :: "string \<Rightarrow> string" where
  "lower s = map lower_char s"

text \<open>\<open>value.replace(" ", "-")\<close>: the pattern is a single character.\<close>

definition replace_space_hyphen :: "string \<Rightarrow> string" where
  "replace_space_hyphen s = map (\<lambda>c. if c = CHR '' '' then CHR ''-'' else c) s"

section \<open>Errors\<close>

text \<open>
  The exceptions the bridge raises or lets through. \<open>HTTPError\<close> carries the status code,
  \<open>KeyError\<close> the missing placeholder of the template engine. \<open>OSError\<close> stands for the
  exceptions of the socket layer that \<open>urllib\<close> passes on as they are (\<open>TimeoutError\<close>,
  \<open>ConnectionResetError\<close>, \<open>http.client.IncompleteRead\<close> and the like), none of which is a
  \<open>URLError\<close>.
\<close>

datatype error =
    KeyError string
  | ValueError
  | RuntimeError
  | HTTPError nat
  | URLError
  | OSError
  | AttributeError

section \<open>template\_engine.py\<close>

text \<open>
  \<open>_PLACEHOLDER = re.compile(r"{{\s*([a-zA-Z0-9_]+)\s*}}")\<close>. The character class of the
  identifier is ASCII only.
\<close>

definition is_ident_char :: "char \<Rightarrow> bool" where
  "is_ident_char c =
     (let n = (of_char c :: nat)
      in (97 \<le> n \<and> n \<le> 122) \<or> (65 \<le> n \<and> n \<le> 90) \<or> (48 \<le> n \<and> n \<le> 57) \<or> n = 95)"

text \<open>
  One attempt of the regular expression at the head of \<open>s\<close>: the captured identifier and
  the text after the match. White space and identifier characters are disjoint and
  neither contains the closing brace, so the greedy run is the only way the pattern can
  match and back-tracking adds nothing.
\<close>

definition match_placeholder :: "string \<Rightarrow> (string \<times> string) option" where
  "match_placeholder s =
     (if take 2 s = ''{{'' then
        (let r1 = dropWhile isspace (drop 2 s);
             key = takeWhile is_ident_char r1;
             r3 = dropWhile isspace (dropWhile is_ident_char r1)
         in if key \<noteq> [] \<and> take 2 r3 = ''}}'' then Some (key, drop 2 r3) else None)
      else None)"

lemma match_placeholder_shorter:
  "match_placeholder s = Some (key, rest) \<Longrightarrow> length rest < length s"
proof -
  assume a: "match_placeholder s = Some (key, rest)"
  have d: "length (dropWhile P xs) \<le> length xs" for P and xs :: string
    by (induction xs) auto
  from a have t: "take 2 s = ''{{''"
    by (auto simp: match_placeholder_def split: if_splits)
  then have l: "2 \<le> length s"
    by (cases s; cases "tl s") auto
  from a t have "rest = drop 2 (dropWhile isspace (dropWhile is_ident_char
                          (dropWhile isspace (drop 2 s))))"
    by (auto simp: match_placeholder_def Let_def split: if_splits)
  then have "length rest \<le> length (dropWhile isspace (dropWhile is_ident_char
                          (dropWhile isspace (drop 2 s))))"
    by simp
  also have "\<dots> \<le> length (dropWhile is_ident_char (dropWhile isspace (drop 2 s)))"
    by (rule d)
  also have "\<dots> \<le> length (dropWhile isspace (drop 2 s))"
    by (rule d)
  also have "\<dots> \<le> length (drop 2 s)"
    by (rule d)
  finally show ?thesis using l by simp
qed

text \<open>
  \<open>_PLACEHOLDER.sub(_replace, template)\<close>: scan from the left; at a match call
  \<open>_replace\<close> (which raises \<open>KeyError\<close> for a key outside the context) and go on after
  the match, otherwise copy one character. The replacement text is not scanned again.
\<close>

function render :: "string \<Rightarrow> (string \<rightharpoonup> string) \<Rightarrow> error + string" where
  "render [] context = Inr []"
| "render (c # cs) context =
     (case match_placeholder (c # cs) of
        Some (key, rest) \<Rightarrow>
          (case context key of
             None \<Rightarrow> Inl (KeyError key)
           | Some v \<Rightarrow>
               (case render rest context of
                  Inl e \<Rightarrow> Inl e
                | Inr out \<Rightarrow> Inr (v @ out)))
      | None \<Rightarrow>
          (case render cs context of
             Inl e \<Rightarrow> Inl e
           | Inr out \<Rightarrow> Inr (c # out)))"
  by pat_completeness auto
termination
  by (relation "measure (\<lambda>(s, _). length s)")
     (auto dest: match_placeholder_shorter)







section \<open>Data model (discord\_client.py, bridge\_config.py)\<close>

text \<open>
  A timezone-aware \<open>datetime\<close> is the instant it denotes, counted in microseconds from
  the epoch: Python compares aware datetimes by instant, and every datetime of the bridge
  is converted to UTC when it is parsed.
\<close>

type_synonym datetime = int

record DiscordAttachment =
  attachment_id :: string
  url :: string
  filename :: string

record DiscordMessage =
  message_id :: string
  author_id :: string
  author_name :: string
  content :: string
  timestamp :: datetime
  attachments :: "DiscordAttachment list"

record DiscordThread =
  thread_id :: string
  guild_id :: "string option"
  channel_id :: string
  name :: string
  owner_id :: string
  created_at :: datetime
  applied_tag_ids :: "string list"
  first_message :: DiscordMessage

record BridgeConfig =
  discord_channel_id :: string
  github_repo :: string
  issue_title_prefix :: string
  issue_body_template :: string
  default_labels :: "string list"
  tag_label_map :: "string \<rightharpoonup> string list"
  fallback_label_prefix :: string
  assignees :: "string list"
  state_backup_enabled :: bool
  max_threads_per_run :: int

subsection \<open>Decoded JSON payloads\<close>

text \<open>
  The payloads are the decoded JSON objects of the Discord API and of the offline sample,
  with the keys the client reads. A key that may be missing is an \<open>option\<close> (\<open>None\<close>:
  the key is absent); a list-valued key that is absent reads as the empty list
  everywhere, so it is a plain list. A timestamp value is \<open>Absent\<close> (no key, or the empty
  string), \<open>Malformed\<close> (a text \<open>datetime.fromisoformat\<close> rejects) or \<open>At t\<close> (a text that
  denotes the instant \<open>t\<close>).
\<close>

datatype ts_field = Absent | Malformed | At datetime

record attachment_payload =
  ap_id :: "string option"
  ap_url :: "string option"
  ap_filename :: "string option"

text \<open>The fields of \<open>payload["author"]\<close> are lifted into the message: no author, no fields.\<close>

record message_payload =
  mp_id :: "string option"
  mp_author_id :: "string option"
  mp_global_name :: "string option"
  mp_username :: "string option"
  mp_content :: "string option"
  mp_timestamp :: ts_field
  mp_attachments :: "attachment_payload list"

text \<open>
  A thread object. \<open>tp_create_timestamp\<close> and \<open>tp_archive_timestamp\<close> are the two keys of
  \<open>thread_metadata\<close> (no metadata: both absent); \<open>tp_created_at\<close> and \<open>tp_messages\<close> are
  the keys only the offline sample has.
\<close>

record thread_payload =
  tp_id :: "string option"
  tp_guild_id :: "string option"
  tp_name :: "string option"
  tp_owner_id :: "string option"
  tp_applied_tags :: "string list"
  tp_create_timestamp :: ts_field
  tp_archive_timestamp :: ts_field
  tp_timestamp :: ts_field
  tp_created_at :: ts_field
  tp_messages :: "message_payload list"

record tag_payload =
  tg_id :: "string option"
  tg_name :: "string option"

record channel_payload =
  cp_id :: "string option"
  cp_available_tags :: "tag_payload list"

record threads_page =
  pg_threads :: "thread_payload list"
  pg_has_more :: bool

record offline_sample =
  os_channel :: channel_payload
  os_threads :: "thread_payload list"

subsection \<open>The network, the clock and the file system\<close>

text \<open>
  What the \<open>with request.urlopen(req) as resp\<close> block of \<open>_execute\<close> can do: deliver a
  body, raise \<open>HTTPError\<close> with a status code and a \<open>Retry-After\<close> header, raise
  \<open>URLError\<close> (a failure while the connection is opened and the request sent), or raise
  another exception, one that \<open>urllib\<close> does not wrap: a \<open>TimeoutError\<close> or a
  \<open>ConnectionResetError\<close> while the response is received or read (\<open>Broken\<close>). A body
  either decodes to the JSON shape \<open>'a\<close> of the endpoint that was asked, or is one
  \<open>json.loads\<close> rejects; bodies of another JSON shape are not modelled. The header is
  missing, or a text \<open>float\<close> or \<open>time.sleep\<close> reject (not a number, or a negative one),
  or a delay in microseconds.
\<close>

datatype retry_after = NoHeader | BadHeader | Seconds int

datatype 'a response = Ok 'a | BadBody | HttpError nat retry_after | UrlError | Broken

text \<open>
  A call of \<open>time.sleep\<close>: for the delay of a \<open>Retry-After\<close> header (microseconds), or for
  the back-off delay \<open>min(2 ** attempt, 30)\<close> (seconds).
\<close>

datatype pause = RetryAfter int | Backoff nat

record issue_request =
  req_title :: string
  req_body :: string
  req_labels :: "string list"
  req_assignees :: "string list"

text \<open>The ledger document on disk: the map form that \<open>save\<close> writes, or the legacy list.\<close>

datatype ledger_ids = IdMap "(string \<times> string) list" | IdList "string list"

record ledger_doc =
  processed_thread_ids :: ledger_ids
  doc_last_synced_at :: "string option"

text \<open>
  What the program takes from its surroundings: \<open>isoformat t\<close> is the text of
  \<open>t.astimezone(timezone.utc).isoformat()\<close>; \<open>clock n\<close> is what the \<open>n\<close>-th call of
  \<open>datetime.now(timezone.utc)\<close> returns; \<open>channel_api n path\<close>, \<open>threads_api n path\<close> and
  \<open>messages_api n path\<close> are what the \<open>n\<close>-th request to Discord does when it asks for
  the channel, for a page of threads or for the messages of a thread at \<open>path\<close>;
  \<open>github_api n r\<close> is the exception the \<open>n\<close>-th call of \<open>create_issue\<close> ends with when it
  submits \<open>r\<close>, if any. \<open>IssueSyncer\<close> only calls \<open>create_issue\<close> of the GitHub client it is
  given (the test suite passes a stub), so the client is this function and the list of
  calls it has received.
\<close>

record env =
  isoformat :: "datetime \<Rightarrow> string"
  clock :: "nat \<Rightarrow> datetime"
  channel_api :: "nat \<Rightarrow> string \<Rightarrow> channel_payload response"
  threads_api :: "nat \<Rightarrow> string \<Rightarrow> threads_page response"
  messages_api :: "nat \<Rightarrow> string \<Rightarrow> message_payload list response"
  github_api :: "nat \<Rightarrow> issue_request \<Rightarrow> error option"

text \<open>
  The state outside the objects: how often the clock has been read, how many requests
  Discord has received, the sleeps so far, the \<open>create_issue\<close> calls so far (in order),
  and the ledger file with its \<open>.bak\<close> copy.
\<close>

record world =
  now_calls :: nat
  requests :: nat
  slept :: "pause list"
  issues :: "issue_request list"
  ledger_file :: "ledger_doc option"
  backup_file :: "ledger_doc option"

definition now :: "env \<Rightarrow> world \<Rightarrow> datetime \<times> world" where
  "now e w = (clock e (now_calls w), w\<lparr>now_calls := now_calls w + 1\<rparr>)"

record DiscordClient =
  token :: string
  client_channel_id :: string
  max_retries :: int
  available_tags :: "(string \<times> string) list"
  offline_payload :: "offline_sample option"

record StateStore =
  backup_enabled :: bool
  processed :: "(string \<times> string) list"
  last_synced_at :: "string option"

section \<open>discord\_client.py\<close>

subsection \<open>Messages and timestamps\<close>

text \<open>\<open>str(payload.get(key))\<close> and \<open>payload.get(key, default)\<close>.\<close>

definition py_str :: "string option \<Rightarrow> string" where
  "py_str v = (case v of None \<Rightarrow> ''None'' | Some x \<Rightarrow> x)"

definition get_or :: "string option \<Rightarrow> string \<Rightarrow> string" where
  "get_or v d = (case v of None \<Rightarrow> d | Some x \<Rightarrow> x)"

definition parse_timestamp :: "env \<Rightarrow> ts_field \<Rightarrow> world \<Rightarrow> (error + datetime) \<times> world" where
  "parse_timestamp e v w =
     (case v of
        Absent \<Rightarrow> (case now e w of (t, w1) \<Rightarrow> (Inr t, w1))
      | Malformed \<Rightarrow> (Inl ValueError, w)
      | At t \<Rightarrow> (Inr t, w))"

definition attachment_from_payload :: "attachment_payload \<Rightarrow> DiscordAttachment" where
  "attachment_from_payload a =
     \<lparr>attachment_id = py_str (ap_id a),
      url = get_or (ap_url a) [],
      filename = get_or (ap_filename a) ''attachment''\<rparr>"

definition message_from_payload ::
  "env \<Rightarrow> message_payload \<Rightarrow> world \<Rightarrow> (error + DiscordMessage) \<times> world" where
  "message_from_payload e p w =
     (case parse_timestamp e (mp_timestamp p) w of
        (Inl err, w1) \<Rightarrow> (Inl err, w1)
      | (Inr ts, w1) \<Rightarrow>
          (Inr \<lparr>message_id = py_str (mp_id p),
                author_id = get_or (mp_author_id p) [],
                author_name =
                  (case mp_global_name p of
                     Some g \<Rightarrow> if g \<noteq> [] then g else get_or (mp_username p) ''unknown''
                   | None \<Rightarrow> get_or (mp_username p) ''unknown''),
                content = strip (get_or (mp_content p) []),
                timestamp = ts,
                attachments = map attachment_from_payload (mp_attachments p)\<rparr>, w1))"

text \<open>The list comprehension \<open>[self._message_from_payload(msg) for msg in ...]\<close>.\<close>

fun messages_from_payloads ::
  "env \<Rightarrow> message_payload list \<Rightarrow> world \<Rightarrow> (error + DiscordMessage list) \<times> world" where
  "messages_from_payloads e [] w = (Inr [], w)"
| "messages_from_payloads e (p # ps) w =
     (case message_from_payload e p w of
        (Inl err, w1) \<Rightarrow> (Inl err, w1)
      | (Inr m, w1) \<Rightarrow>
          (case messages_from_payloads e ps w1 of
             (Inl err, w2) \<Rightarrow> (Inl err, w2)
           | (Inr ms, w2) \<Rightarrow> (Inr (m # ms), w2)))"

text \<open>
  \<open>min(messages, key=lambda msg: msg.timestamp)\<close> on a non-empty list \<open>m # ms\<close>: the first
  of the messages with the least timestamp.
\<close>

fun earliest :: "DiscordMessage \<Rightarrow> DiscordMessage list \<Rightarrow> DiscordMessage" where
  "earliest m [] = m"
| "earliest m (x # xs) = earliest (if timestamp x < timestamp m then x else m) xs"

text \<open>\<open>since and created_at <= since\<close> (a datetime is always true) and
  \<open>limit and len(threads) >= limit\<close> (the limit \<open>0\<close> is false).\<close>

definition not_newer :: "datetime option \<Rightarrow> datetime \<Rightarrow> bool" where
  "not_newer since t = (case since of None \<Rightarrow> False | Some s \<Rightarrow> t \<le> s)"

definition limit_reached :: "int option \<Rightarrow> nat \<Rightarrow> bool" where
  "limit_reached limit n = (case limit of None \<Rightarrow> False | Some l \<Rightarrow> l \<noteq> 0 \<and> l \<le> int n)"

definition guild_of :: "thread_payload \<Rightarrow> string option" where
  "guild_of tp = (case tp_guild_id tp of Some g \<Rightarrow> if g \<noteq> [] then Some g else None | None \<Rightarrow> None)"

subsection \<open>The offline sample\<close>

definition offline_thread ::
  "offline_sample \<Rightarrow> thread_payload \<Rightarrow> datetime \<Rightarrow> DiscordMessage \<Rightarrow> DiscordThread" where
  "offline_thread sample tp created first =
     \<lparr>thread_id = py_str (tp_id tp),
      guild_id = guild_of tp,
      channel_id = get_or (cp_id (os_channel sample)) [],
      name = get_or (tp_name tp) ''(no title)'',
      owner_id = get_or (tp_owner_id tp) [],
      created_at = created,
      applied_tag_ids = tp_applied_tags tp,
      first_message = first\<rparr>"

text \<open>
  The loop of \<open>_threads_from_offline\<close> over the thread payloads still to visit, with the
  list \<open>threads\<close> built so far.
\<close>

fun offline_loop ::
  "env \<Rightarrow> offline_sample \<Rightarrow> datetime option \<Rightarrow> int option \<Rightarrow> thread_payload list
     \<Rightarrow> DiscordThread list \<Rightarrow> world \<Rightarrow> (error + DiscordThread list) \<times> world" where
  "offline_loop e sample since limit [] threads w = (Inr threads, w)"
| "offline_loop e sample since limit (tp # rest) threads w =
     (case parse_timestamp e (tp_created_at tp) w of
        (Inl err, w1) \<Rightarrow> (Inl err, w1)
      | (Inr created, w1) \<Rightarrow>
          if not_newer since created then offline_loop e sample since limit rest threads w1
          else
            (case messages_from_payloads e (tp_messages tp) w1 of
               (Inl err, w2) \<Rightarrow> (Inl err, w2)
             | (Inr [], w2) \<Rightarrow> offline_loop e sample since limit rest threads w2
             | (Inr (m # ms), w2) \<Rightarrow>
                 (let threads1 = threads @ [offline_thread sample tp created (earliest m ms)]
                  in if limit_reached limit (length threads1) then (Inr threads1, w2)
                     else offline_loop e sample since limit rest threads1 w2)))"

text \<open>\<open>threads.sort(key=lambda t: t.created_at)\<close> is a stable sort, as \<open>sort_key\<close> is.\<close>

definition threads_from_offline ::
  "env \<Rightarrow> offline_sample \<Rightarrow> datetime option \<Rightarrow> int option \<Rightarrow> world
     \<Rightarrow> (error + DiscordThread list) \<times> world" where
  "threads_from_offline e sample since limit w =
     (case offline_loop e sample since limit (os_threads sample) [] w of
        (Inl err, w1) \<Rightarrow> (Inl err, w1)
      | (Inr threads, w1) \<Rightarrow> (Inr (sort_key created_at threads), w1))"

subsection \<open>Requests\<close>

definition sleep :: "pause \<Rightarrow> world \<Rightarrow> world" where
  "sleep p w = w\<lparr>slept := slept w @ [p]\<rparr>"

definition backoff_delay :: "int \<Rightarrow> nat" where
  "backoff_delay attempt = min (2 ^ nat attempt) 30"

text \<open>
  \<open>_execute\<close>: the \<open>for\<close> loop over the attempts still to make. \<open>api n\<close> is what the
  \<open>n\<close>-th request does. Every \<open>continue\<close>, the one after a 429 as well, and the fall
  through after \<open>URLError\<close> go on with the next attempt of the \<open>for\<close> loop; when the loop
  runs out, \<open>RuntimeError\<close> is raised. A missing \<open>Retry-After\<close> header reads as \<open>"1"\<close>.
  An exception that is neither \<open>HTTPError\<close> nor \<open>URLError\<close> is caught by no \<open>except\<close>
  clause: it leaves \<open>_execute\<close> at once, whatever the attempt.
\<close>

fun execute_from ::
  "(nat \<Rightarrow> 'a response) \<Rightarrow> int \<Rightarrow> int list \<Rightarrow> world \<Rightarrow> (error + 'a) \<times> world" where
  "execute_from api max_r [] w = (Inl RuntimeError, w)"
| "execute_from api max_r (attempt # rest) w =
     (let w1 = w\<lparr>requests := requests w + 1\<rparr>
      in case api (requests w) of
           Ok v \<Rightarrow> (Inr v, w1)
         | BadBody \<Rightarrow> (Inl ValueError, w1)
         | HttpError code ra \<Rightarrow>
             if code = 429 then
               (case ra of
                  NoHeader \<Rightarrow> execute_from api max_r rest (sleep (RetryAfter 1000000) w1)
                | BadHeader \<Rightarrow> (Inl ValueError, w1)
                | Seconds d \<Rightarrow>
                    if d < 0 then (Inl ValueError, w1)
                    else execute_from api max_r rest (sleep (RetryAfter d) w1))
             else if 500 \<le> code \<and> code < 600 \<and> attempt < max_r
               then execute_from api max_r rest (sleep (Backoff (backoff_delay attempt)) w1)
             else (Inl (HTTPError code), w1)
         | UrlError \<Rightarrow>
             if attempt \<ge> max_r then (Inl URLError, w1)
             else execute_from api max_r rest (sleep (Backoff (backoff_delay attempt)) w1)
         | Broken \<Rightarrow> (Inl OSError, w1))"

definition execute :: "(nat \<Rightarrow> 'a response) \<Rightarrow> DiscordClient \<Rightarrow> world \<Rightarrow> (error + 'a) \<times> world" where
  "execute api discord w = execute_from api (max_retries discord) [1..max_retries discord] w"

definition get ::
  "(nat \<Rightarrow> string \<Rightarrow> 'a response) \<Rightarrow> string \<Rightarrow> DiscordClient \<Rightarrow> world \<Rightarrow> (error + 'a) \<times> world" where
  "get api path discord w =
     (if take 1 path \<noteq> ''/'' then (Inl ValueError, w)
      else execute (\<lambda>n. api n path) discord w)"

subsection \<open>Live mode\<close>

definition fetch_thread_messages ::
  "env \<Rightarrow> DiscordClient \<Rightarrow> string \<Rightarrow> world \<Rightarrow> (error + DiscordMessage list) \<times> world" where
  "fetch_thread_messages e discord tid w =
     (case offline_payload discord of
        Some sample \<Rightarrow>
          (case find (\<lambda>t. py_str (tp_id t) = tid) (os_threads sample) of
             Some t \<Rightarrow> messages_from_payloads e (tp_messages t) w
           | None \<Rightarrow> (Inr [], w))
      | None \<Rightarrow>
          (case get (messages_api e) (''/channels/'' @ tid @ ''/messages?limit=50'') discord w of
             (Inl err, w1) \<Rightarrow> (Inl err, w1)
           | (Inr messages_payload, w1) \<Rightarrow> messages_from_payloads e messages_payload w1))"

text \<open>
  The dictionary comprehension \<open>{str(tag["id"]): tag.get("name", "") for tag in tags}\<close>;
  \<open>tag["id"]\<close> raises \<open>KeyError\<close> for a tag without identity. The dictionary of tag names
  is an association list, empty when the dictionary is false.
\<close>

fun tags_dict ::
  "tag_payload list \<Rightarrow> (string \<times> string) list \<Rightarrow> error + (string \<times> string) list" where
  "tags_dict [] m = Inr m"
| "tags_dict (t # ts) m =
     (case tg_id t of
        None \<Rightarrow> Inl (KeyError ''id'')
      | Some i \<Rightarrow> tags_dict ts (AList.update i (get_or (tg_name t) []) m))"

definition fetch_channel_metadata ::
  "env \<Rightarrow> DiscordClient \<Rightarrow> world \<Rightarrow> (error + DiscordClient) \<times> world" where
  "fetch_channel_metadata e discord w =
     (if available_tags discord \<noteq> [] then (Inr discord, w)
      else
        (case get (channel_api e) (''/channels/'' @ client_channel_id discord) discord w of
           (Inl err, w1) \<Rightarrow> (Inl err, w1)
         | (Inr payload, w1) \<Rightarrow>
             (case tags_dict (cp_available_tags payload) [] of
                Inl err \<Rightarrow> (Inl err, w1)
              | Inr tags \<Rightarrow> (Inr (discord\<lparr>available_tags := tags\<rparr>), w1))))"

text \<open>
  \<open>payload.get("threads", [])[-1]["id"] if payload.get("threads") else None\<close>, and whether
  the cursor is true (neither \<open>None\<close> nor empty).
\<close>

definition last_id :: "thread_payload list \<Rightarrow> error + string option" where
  "last_id ts =
     (if ts = [] then Inr None
      else (case tp_id (last ts) of None \<Rightarrow> Inl (KeyError ''id'') | Some i \<Rightarrow> Inr (Some i)))"

definition cursor_set :: "string option \<Rightarrow> bool" where
  "cursor_set before_id = (case before_id of None \<Rightarrow> False | Some i \<Rightarrow> i \<noteq> [])"

text \<open>
  The \<open>while payload.get("has_more") and before_id\<close> loop over the archived pages. Nothing
  bounds it: it runs for as long as Discord reports more pages and the limit is not
  reached. \<open>parse.urlencode\<close> leaves a cursor of digits as it is.
\<close>

partial_function (option) paginate ::
  "env \<Rightarrow> DiscordClient \<Rightarrow> int option \<Rightarrow> threads_page \<Rightarrow> string option
     \<Rightarrow> thread_payload list \<Rightarrow> world \<Rightarrow> ((error + thread_payload list) \<times> world) option" where
  "paginate e discord limit payload before_id collected w =
     (if pg_has_more payload \<and> cursor_set before_id then
        (case get (threads_api e)
                (''/channels/'' @ client_channel_id discord @ ''/threads/archived/public?before=''
                   @ the before_id) discord w of
           (Inl err, w1) \<Rightarrow> Some (Inl err, w1)
         | (Inr payload1, w1) \<Rightarrow>
             (let collected1 = collected @ pg_threads payload1
              in if limit_reached limit (length collected1) then Some (Inr collected1, w1)
                 else
                   (case last_id (pg_threads payload1) of
                      Inl err \<Rightarrow> Some (Inl err, w1)
                    | Inr before_id1 \<Rightarrow> paginate e discord limit payload1 before_id1 collected1 w1)))
      else Some (Inr collected, w))"

declare paginate.simps [code]

text \<open>
  The \<open>for endpoint in ("threads/active", "threads/archived/public")\<close> loop, unrolled:
  only the second endpoint is paginated.
\<close>

definition collect_threads ::
  "env \<Rightarrow> DiscordClient \<Rightarrow> int option \<Rightarrow> world
     \<Rightarrow> ((error + thread_payload list) \<times> world) option" where
  "collect_threads e discord limit w =
     (case get (threads_api e) (''/channels/'' @ client_channel_id discord @ ''/threads/active'')
             discord w of
        (Inl err, w1) \<Rightarrow> Some (Inl err, w1)
      | (Inr active, w1) \<Rightarrow>
          if limit_reached limit (length (pg_threads active)) then Some (Inr (pg_threads active), w1)
          else
            (case get (threads_api e)
                    (''/channels/'' @ client_channel_id discord @ ''/threads/archived/public'')
                    discord w1 of
               (Inl err, w2) \<Rightarrow> Some (Inl err, w2)
             | (Inr archived, w2) \<Rightarrow>
                 (let collected = pg_threads active @ pg_threads archived
                  in if limit_reached limit (length collected) then Some (Inr collected, w2)
                     else if pg_has_more archived then
                       (case last_id (pg_threads archived) of
                          Inl err \<Rightarrow> Some (Inl err, w2)
                        | Inr before_id \<Rightarrow> paginate e discord limit archived before_id collected w2)
                     else Some (Inr collected, w2))))"

definition extract_created_at ::
  "env \<Rightarrow> thread_payload \<Rightarrow> world \<Rightarrow> (error + datetime) \<times> world" where
  "extract_created_at e tp w =
     (let ts = (if tp_create_timestamp tp \<noteq> Absent then tp_create_timestamp tp
                else tp_archive_timestamp tp)
      in if ts \<noteq> Absent then parse_timestamp e ts w
         else parse_timestamp e (tp_timestamp tp) w)"

definition live_thread ::
  "DiscordClient \<Rightarrow> thread_payload \<Rightarrow> string \<Rightarrow> datetime \<Rightarrow> DiscordMessage \<Rightarrow> DiscordThread" where
  "live_thread discord tp tid created first =
     \<lparr>thread_id = tid,
      guild_id = guild_of tp,
      channel_id = client_channel_id discord,
      name = get_or (tp_name tp) ''(no title)'',
      owner_id = get_or (tp_owner_id tp) [],
      created_at = created,
      applied_tag_ids = tp_applied_tags tp,
      first_message = first\<rparr>"

text \<open>
  The loop of \<open>fetch_threads\<close> over the collected payloads. \<open>thread_payload["id"]\<close> raises
  \<open>KeyError\<close> for a thread without identity. The creation time is compared with
  \<open>since\<close> as reported, and then raised to the time of the first message when it is
  earlier.
\<close>

fun live_loop ::
  "env \<Rightarrow> DiscordClient \<Rightarrow> datetime option \<Rightarrow> int option \<Rightarrow> thread_payload list
     \<Rightarrow> DiscordThread list \<Rightarrow> world \<Rightarrow> (error + DiscordThread list) \<times> world" where
  "live_loop e discord since limit [] threads w = (Inr threads, w)"
| "live_loop e discord since limit (tp # rest) threads w =
     (case extract_created_at e tp w of
        (Inl err, w1) \<Rightarrow> (Inl err, w1)
      | (Inr created, w1) \<Rightarrow>
          if not_newer since created then live_loop e discord since limit rest threads w1
          else
            (case tp_id tp of
               None \<Rightarrow> (Inl (KeyError ''id''), w1)
             | Some tid \<Rightarrow>
                 (case fetch_thread_messages e discord tid w1 of
                    (Inl err, w2) \<Rightarrow> (Inl err, w2)
                  | (Inr [], w2) \<Rightarrow> live_loop e discord since limit rest threads w2
                  | (Inr (m # ms), w2) \<Rightarrow>
                      (let first = earliest m ms;
                           created1 = (if created < timestamp first then timestamp first
                                       else created);
                           threads1 = threads @ [live_thread discord tp tid created1 first]
                       in if limit_reached limit (length threads1) then (Inr threads1, w2)
                          else live_loop e discord since limit rest threads1 w2))))"

text \<open>
  \<open>fetch_threads\<close>. The result is \<open>None\<close> when the pagination never ends; otherwise the
  threads (or the exception) with the client, whose tag names may have been fetched.
\<close>

definition fetch_threads ::
  "env \<Rightarrow> DiscordClient \<Rightarrow> datetime option \<Rightarrow> int option \<Rightarrow> world
     \<Rightarrow> ((error + DiscordThread list \<times> DiscordClient) \<times> world) option" where
  "fetch_threads e discord since limit w =
     (case offline_payload discord of
        Some sample \<Rightarrow>
          (case threads_from_offline e sample since limit w of
             (Inl err, w1) \<Rightarrow> Some (Inl err, w1)
           | (Inr threads, w1) \<Rightarrow> Some (Inr (threads, discord), w1))
      | None \<Rightarrow>
          (case fetch_channel_metadata e discord w of
             (Inl err, w1) \<Rightarrow> Some (Inl err, w1)
           | (Inr discord1, w1) \<Rightarrow>
               (case collect_threads e discord1 limit w1 of
                  None \<Rightarrow> None
                | Some (Inl err, w2) \<Rightarrow> Some (Inl err, w2)
                | Some (Inr collected, w2) \<Rightarrow>
                    (case live_loop e discord1 since limit collected [] w2 of
                       (Inl err, w3) \<Rightarrow> Some (Inl err, w3)
                     | (Inr threads, w3) \<Rightarrow>
                         Some (Inr (sort_key created_at threads, discord1), w3)))))"

text \<open>
  \<open>DiscordClient.__init__\<close>: without a token the client needs an offline sample, whose
  channel gives the tag names.
\<close>

definition new_client ::
  "string \<Rightarrow> string \<Rightarrow> offline_sample option \<Rightarrow> int \<Rightarrow> error + DiscordClient" where
  "new_client tok cid sample retries =
     (if tok = [] \<and> sample = None then Inl ValueError
      else
        (case sample of
           None \<Rightarrow> Inr \<lparr>token = tok, client_channel_id = cid, max_retries = retries,
                          available_tags = [], offline_payload = None\<rparr>
         | Some payload \<Rightarrow>
             (case tags_dict (cp_available_tags (os_channel payload)) [] of
                Inl err \<Rightarrow> Inl err
              | Inr tags \<Rightarrow>
                  Inr \<lparr>token = tok, client_channel_id = cid, max_retries = retries,
                       available_tags = tags, offline_payload = Some payload\<rparr>)))"

section \<open>issue\_syncer.py: labels, title and body\<close>

text \<open>\<open>DiscordClient.resolve_tag_name\<close>: \<open>self._available_tags.get(tag_id, tag_id)\<close>.\<close>

definition resolve_tag_name :: "DiscordClient \<Rightarrow> string \<Rightarrow> string" where
  "resolve_tag_name discord tag_id =
     (case map_of (available_tags discord) tag_id of Some tag_name \<Rightarrow> tag_name | None \<Rightarrow> tag_id)"

definition sanitize_label :: "string \<Rightarrow> string" where
  "sanitize_label v =
     (let normalized = replace_space_hyphen (lower (strip v))
      in if normalized \<noteq> [] then normalized else ''untitled'')"

text \<open>
  The body of both inner loops of \<open>_build_labels\<close>: append a label that has not been seen.
  The state is the pair of the list \<open>labels\<close> and the set \<open>seen\<close>.
\<close>

definition add_label :: "string \<Rightarrow> string list \<times> string set \<Rightarrow> string list \<times> string set" where
  "add_label label st =
     (case st of (labels, seen) \<Rightarrow>
        if label \<notin> seen then (labels @ [label], insert label seen) else (labels, seen))"

text \<open>
  One round of the loop over \<open>thread.applied_tag_ids\<close>. \<open>if mapped:\<close> is false for a
  missing entry and for an empty list alike.
\<close>

definition add_tag ::
  "BridgeConfig \<Rightarrow> DiscordClient \<Rightarrow> string \<Rightarrow> string list \<times> string set
     \<Rightarrow> string list \<times> string set" where
  "add_tag config discord tag_id st =
     (case tag_label_map config tag_id of
        Some (l # ls) \<Rightarrow> fold add_label (l # ls) st
      | _ \<Rightarrow>
          (let fallback_name = sanitize_label (resolve_tag_name discord tag_id);
               label_value = strip (fallback_label_prefix config @ fallback_name)
           in if label_value \<noteq> [] \<and> label_value \<notin> snd st
              then (fst st @ [label_value], insert label_value (snd st))
              else st))"

definition build_labels ::
  "BridgeConfig \<Rightarrow> DiscordClient \<Rightarrow> DiscordThread \<Rightarrow> string list" where
  "build_labels config discord thread =
     fst (fold (add_tag config discord) (applied_tag_ids thread)
            (fold add_label (default_labels config) ([], {})))"

text \<open>\<open>issue_title = f"{self._config.issue_title_prefix}{thread.name}".strip()\<close>\<close>

definition issue_title :: "BridgeConfig \<Rightarrow> DiscordThread \<Rightarrow> string" where
  "issue_title config thread = strip (issue_title_prefix config @ name thread)"

definition jump_url :: "DiscordThread \<Rightarrow> string" where
  "jump_url thread =
     (case guild_id thread of
        None \<Rightarrow> ''https://discord.com/channels/@me/'' @ thread_id thread @ ''/''
                  @ message_id (first_message thread)
      | Some g \<Rightarrow>
          if g = [] then ''https://discord.com/channels/@me/'' @ thread_id thread @ ''/''
                  @ message_id (first_message thread)
          else ''https://discord.com/channels/'' @ g @ ''/'' @ thread_id thread @ ''/''
                  @ message_id (first_message thread))"

text \<open>
  The two Japanese literals of the body, \<open>"- nashi"\<close> (no attachment) and
  \<open>"(honbun nashi)"\<close> (no text), are only ever copied into the body; they are written as
  their UTF-8 bytes.
\<close>

definition no_attachments_marker :: string where
  "no_attachments_marker = ''- '' @ [CHR 0xE3, CHR 0x81, CHR 0xAA, CHR 0xE3, CHR 0x81, CHR 0x97]"

definition no_content_marker :: string where
  "no_content_marker =
     ''('' @ [CHR 0xE6, CHR 0x9C, CHR 0xAC, CHR 0xE6, CHR 0x96, CHR 0x87,
              CHR 0xE3, CHR 0x81, CHR 0xAA, CHR 0xE3, CHR 0x81, CHR 0x97] @ '')''"

fun join_lines :: "string list \<Rightarrow> string" where
  "join_lines [] = []"
| "join_lines [l] = l"
| "join_lines (l # ls) = l @ [CHR 0x0A] @ join_lines ls"

definition attachment_line :: "DiscordAttachment \<Rightarrow> string" where
  "attachment_line a =
     ''- ['' @ (if filename a \<noteq> [] then filename a else ''attachment'') @ '']('' @ url a @ '')''"

definition format_attachments :: "DiscordThread \<Rightarrow> string" where
  "format_attachments thread =
     (if attachments (first_message thread) = [] then no_attachments_marker
      else join_lines (map attachment_line (attachments (first_message thread))))"

definition body_context :: "env \<Rightarrow> DiscordThread \<Rightarrow> (string \<rightharpoonup> string)" where
  "body_context e thread =
     [''title'' \<mapsto> name thread,
      ''author'' \<mapsto> author_name (first_message thread),
      ''message_url'' \<mapsto> jump_url thread,
      ''content'' \<mapsto> (if content (first_message thread) \<noteq> []
                       then content (first_message thread) else no_content_marker),
      ''attachments'' \<mapsto> format_attachments thread,
      ''created_at'' \<mapsto> isoformat e (created_at thread),
      ''thread_id'' \<mapsto> thread_id thread]"

definition build_body :: "env \<Rightarrow> BridgeConfig \<Rightarrow> DiscordThread \<Rightarrow> error + string" where
  "build_body e config thread = render (issue_body_template config) (body_context e thread)"

section \<open>state\_store.py\<close>

text \<open>
  \<open>processed\<close> is a Python dictionary, which keeps its keys in the order of their first
  insertion: an association list under \<open>AList.update\<close>. Errors of the file system are
  not modelled.
\<close>

definition dict_of :: "(string \<times> string) list \<Rightarrow> (string \<times> string) list" where
  "dict_of kvs = fold (\<lambda>(k, v). AList.update k v) kvs []"

definition load :: "StateStore \<Rightarrow> world \<Rightarrow> StateStore" where
  "load st w =
     (case ledger_file w of
        None \<Rightarrow> st\<lparr>processed := [], last_synced_at := None\<rparr>
      | Some doc \<Rightarrow>
          st\<lparr>processed :=
               (case processed_thread_ids doc of
                  IdMap m \<Rightarrow> dict_of m
                | IdList ids \<Rightarrow>
                    dict_of (map (\<lambda>tid. (tid, get_or (doc_last_synced_at doc) [])) ids)),
             last_synced_at := doc_last_synced_at doc\<rparr>)"

definition has_processed :: "StateStore \<Rightarrow> string \<Rightarrow> bool" where
  "has_processed st tid = (tid \<in> set (map fst (processed st)))"

definition mark_processed ::
  "env \<Rightarrow> StateStore \<Rightarrow> string \<Rightarrow> datetime \<Rightarrow> world \<Rightarrow> StateStore \<times> world" where
  "mark_processed e st tid processed_at w =
     (case now e w of
        (t, w1) \<Rightarrow>
          (st\<lparr>processed := AList.update tid (isoformat e processed_at) (processed st),
              last_synced_at := Some (isoformat e t)\<rparr>, w1))"

definition save :: "StateStore \<Rightarrow> world \<Rightarrow> world" where
  "save st w =
     w\<lparr>backup_file := (if backup_enabled st \<and> ledger_file w \<noteq> None then ledger_file w
                        else backup_file w),
       ledger_file := Some \<lparr>processed_thread_ids = IdMap (processed st),
                            doc_last_synced_at = last_synced_at st\<rparr>\<rparr>"

section \<open>issue\_syncer.py: the run\<close>

definition create_issue :: "env \<Rightarrow> issue_request \<Rightarrow> world \<Rightarrow> (error + unit) \<times> world" where
  "create_issue e r w =
     (let w1 = w\<lparr>issues := issues w @ [r]\<rparr>
      in case github_api e (length (issues w)) r of
           Some err \<Rightarrow> (Inl err, w1)
         | None \<Rightarrow> (Inr (), w1))"

definition issue_for :: "BridgeConfig \<Rightarrow> DiscordClient \<Rightarrow> DiscordThread \<Rightarrow> string \<Rightarrow> issue_request" where
  "issue_for config discord thread text =
     \<lparr>req_title = issue_title config thread,
      req_body = text,
      req_labels = build_labels config discord thread,
      req_assignees = assignees config\<rparr>"

text \<open>
  The \<open>for thread in threads\<close> loop of \<open>run\<close>, with the ledger and \<open>processed_count\<close>. An
  exception of the template engine or of \<open>create_issue\<close> ends the run.
\<close>

fun run_loop ::
  "env \<Rightarrow> BridgeConfig \<Rightarrow> DiscordClient \<Rightarrow> DiscordThread list \<Rightarrow> StateStore \<Rightarrow> nat \<Rightarrow> world
     \<Rightarrow> (error + StateStore \<times> nat) \<times> world" where
  "run_loop e config discord [] st processed_count w = (Inr (st, processed_count), w)"
| "run_loop e config discord (thread # rest) st processed_count w =
     (if has_processed st (thread_id thread)
      then run_loop e config discord rest st processed_count w
      else
        (case build_body e config thread of
           Inl err \<Rightarrow> (Inl err, w)
         | Inr text \<Rightarrow>
             (case create_issue e (issue_for config discord thread text) w of
                (Inl err, w1) \<Rightarrow> (Inl err, w1)
              | (Inr _, w1) \<Rightarrow>
                  (case mark_processed e st (thread_id thread) (created_at thread) w1 of
                     (st1, w2) \<Rightarrow>
                       run_loop e config discord rest st1 (processed_count + 1) w2))))"

text \<open>The end of \<open>run\<close>: \<open>if processed_count or self._state.last_synced_at is None\<close>.\<close>

definition persist :: "env \<Rightarrow> StateStore \<Rightarrow> nat \<Rightarrow> world \<Rightarrow> StateStore \<times> world" where
  "persist e st processed_count w =
     (if processed_count \<noteq> 0 \<or> last_synced_at st = None then (st, save st w)
      else
        (case now e w of
           (t, w1) \<Rightarrow>
             (let st1 = st\<lparr>last_synced_at := Some (isoformat e t)\<rparr>
              in (st1, save st1 w1))))"

definition effective_limit :: "BridgeConfig \<Rightarrow> int option \<Rightarrow> int" where
  "effective_limit config max_threads =
     (case max_threads of
        None \<Rightarrow> max_threads_per_run config
      | Some m \<Rightarrow> if m \<noteq> 0 then m else max_threads_per_run config)"

text \<open>
  \<open>IssueSyncer.run\<close>: the count of new issues with the ledger and the client as the run
  leaves them, or the exception; \<open>None\<close> when fetching never ends.
\<close>

definition run ::
  "env \<Rightarrow> BridgeConfig \<Rightarrow> DiscordClient \<Rightarrow> StateStore \<Rightarrow> datetime option \<Rightarrow> int option
     \<Rightarrow> world \<Rightarrow> ((error + nat \<times> StateStore \<times> DiscordClient) \<times> world) option" where
  "run e config discord st since max_threads w =
     (case fetch_threads e discord since (Some (effective_limit config max_threads)) w of
        None \<Rightarrow> None
      | Some (Inl err, w1) \<Rightarrow> Some (Inl err, w1)
      | Some (Inr (threads, discord1), w1) \<Rightarrow>
          (case run_loop e config discord1 threads st 0 w1 of
             (Inl err, w2) \<Rightarrow> Some (Inl err, w2)
           | (Inr (st1, processed_count), w2) \<Rightarrow>
               (case persist e st1 processed_count w2 of
                  (st2, w3) \<Rightarrow> Some (Inr (processed_count, st2, discord1), w3))))"

text \<open>
  The threads a run submits: those whose identity is neither in the ledger nor that of a
  thread earlier in the list.
\<close>

fun submitted :: "string set \<Rightarrow> DiscordThread list \<Rightarrow> DiscordThread list" where
  "submitted seen [] = []"
| "submitted seen (t # ts) =
     (if thread_id t \<in> seen then submitted seen ts
      else t # submitted (insert (thread_id t) seen) ts)"

text \<open>
  The configuration of \<open>tests/test_rendering.py\<close>, and a thread with a given name and
  tags for the examples.
\<close>

definition test_config :: BridgeConfig where
  "test_config =
     \<lparr>discord_channel_id = ''123456789012345678'',
      github_repo = ''fishnchips/Epika'',
      issue_title_prefix = ''[Discord] '',
      issue_body_template = ''{{content}}'',
      default_labels = [''discord'', ''triage''],
      tag_label_map = [''987654321098765432'' \<mapsto> [''bug'']],
      fallback_label_prefix = ''discord/tag/'',
      assignees = [''licht''],
      state_backup_enabled = False,
      max_threads_per_run = 10\<rparr>"

definition test_client :: DiscordClient where
  "test_client =
     \<lparr>token = [], client_channel_id = ''123456789012345678'', max_retries = 5,
      available_tags = [], offline_payload = None\<rparr>"

definition test_message :: "datetime \<Rightarrow> DiscordMessage" where
  "test_message t =
     \<lparr>message_id = ''900'', author_id = ''7'', author_name = ''licht'',
      content = ''It crashed'', timestamp = t, attachments = []\<rparr>"

definition test_thread :: "string \<Rightarrow> string \<Rightarrow> datetime \<Rightarrow> string list \<Rightarrow> DiscordThread" where
  "test_thread tid nm t tags =
     \<lparr>thread_id = tid, guild_id = None, channel_id = ''123456789012345678'', name = nm,
      owner_id = ''7'', created_at = t, applied_tag_ids = tags,
      first_message = test_message t\<rparr>"

text \<open>
  The label list as the specification words it, to compare with \<open>build_labels\<close>: the
  default labels, then per applied tag the mapped labels when the map has an entry, else
  the prefix followed by the display name in lower case with hyphens for spaces; every
  label kept at its first occurrence only.
\<close>

fun dedup :: "'a list \<Rightarrow> 'a list" where
  "dedup [] = []"
| "dedup (x # xs) = x # dedup (filter (\<lambda>y. y \<noteq> x) xs)"

definition spec_tag_labels ::
  "BridgeConfig \<Rightarrow> DiscordClient \<Rightarrow> string \<Rightarrow> string list" where
  "spec_tag_labels config discord tag_id =
     (case tag_label_map config tag_id of
        Some mapped \<Rightarrow> mapped
      | None \<Rightarrow> [fallback_label_prefix config
                  @ replace_space_hyphen (lower (resolve_tag_name discord tag_id))])"

definition spec_build_labels ::
  "BridgeConfig \<Rightarrow> DiscordClient \<Rightarrow> DiscordThread \<Rightarrow> string list" where
  "spec_build_labels config discord thread =
     dedup (default_labels config
            @ concat (map (spec_tag_labels config discord) (applied_tag_ids thread)))"

text \<open>
  The labels one applied tag contributes in the code: a non-empty mapped list, else the
  trimmed concatenation of the prefix and the sanitized display name.
\<close>

definition tag_labels ::
  "BridgeConfig \<Rightarrow> DiscordClient \<Rightarrow> string \<Rightarrow> string list" where
  "tag_labels config discord tag_id =
     (case tag_label_map config tag_id of
        Some (l # ls) \<Rightarrow> l # ls
      | _ \<Rightarrow> [strip (fallback_label_prefix config
                        @ sanitize_label (resolve_tag_name discord tag_id))])"

section \<open>Notions for the properties\<close>

text \<open>The identities in the ledger, and what a run adds for a submitted thread.\<close>

definition keys :: "StateStore \<Rightarrow> string set" where
  "keys st = set (map fst (processed st))"

definition request_of :: "env \<Rightarrow> BridgeConfig \<Rightarrow> DiscordClient \<Rightarrow> DiscordThread \<Rightarrow> issue_request" where
  "request_of e config discord t =
     issue_for config discord t (case build_body e config t of Inr x \<Rightarrow> x | Inl _ \<Rightarrow> [])"

definition entry_of :: "env \<Rightarrow> DiscordThread \<Rightarrow> string \<times> string" where
  "entry_of e t = (thread_id t, isoformat e (created_at t))"

text \<open>Reading the result of \<open>fetch_threads\<close> and of \<open>run\<close>.\<close>

definition threads_of ::
  "((error + DiscordThread list \<times> DiscordClient) \<times> world) option \<Rightarrow> DiscordThread list" where
  "threads_of r = (case r of Some (Inr (threads, _), _) \<Rightarrow> threads | _ \<Rightarrow> [])"

definition count_of ::
  "((error + nat \<times> StateStore \<times> DiscordClient) \<times> world) option \<Rightarrow> nat option" where
  "count_of r = (case r of Some (Inr (n, _), _) \<Rightarrow> Some n | _ \<Rightarrow> None)"

definition issues_of :: "('a \<times> world) option \<Rightarrow> issue_request list" where
  "issues_of r = (case r of Some (_, w) \<Rightarrow> issues w | None \<Rightarrow> [])"


text \<open>The threads that a run which starts from the ledger \<open>st\<close> in the world \<open>w\<close> submits.\<close>

definition submitted_threads ::
  "env \<Rightarrow> BridgeConfig \<Rightarrow> DiscordClient \<Rightarrow> StateStore \<Rightarrow> datetime option \<Rightarrow> int option
     \<Rightarrow> world \<Rightarrow> DiscordThread list" where
  "submitted_threads e config discord st since max_threads w =
     submitted (keys st)
       (threads_of (fetch_threads e discord since (Some (effective_limit config max_threads)) w))"

text \<open>
  The list \<open>threads\<close> of \<open>fetch_threads\<close> as its loop leaves it, before \<open>threads.sort\<close>:
  the threads in the order in which they were fetched. It is empty when \<open>fetch_threads\<close>
  does not get that far. And the client as \<open>fetch_threads\<close> leaves it, with the tag names
  it has fetched.
\<close>

definition appended_threads ::
  "env \<Rightarrow> DiscordClient \<Rightarrow> datetime option \<Rightarrow> int option \<Rightarrow> world \<Rightarrow> DiscordThread list" where
  "appended_threads e discord since limit w =
     (case offline_payload discord of
        Some sample \<Rightarrow>
          (case offline_loop e sample since limit (os_threads sample) [] w of
             (Inr threads, _) \<Rightarrow> threads
           | _ \<Rightarrow> [])
      | None \<Rightarrow>
          (case fetch_channel_metadata e discord w of
             (Inr discord1, w1) \<Rightarrow>
               (case collect_threads e discord1 limit w1 of
                  Some (Inr collected, w2) \<Rightarrow>
                    (case live_loop e discord1 since limit collected [] w2 of
                       (Inr threads, _) \<Rightarrow> threads
                     | _ \<Rightarrow> [])
                | _ \<Rightarrow> [])
           | _ \<Rightarrow> []))"

definition client_of ::
  "DiscordClient \<Rightarrow> ((error + DiscordThread list \<times> DiscordClient) \<times> world) option
     \<Rightarrow> DiscordClient" where
  "client_of discord r = (case r of Some (Inr (_, discord1), _) \<Rightarrow> discord1 | _ \<Rightarrow> discord)"

text \<open>
  \<open>untouched w w1\<close>: the issues and the files are in \<open>w1\<close> as they are in \<open>w\<close>.
  \<open>loop_ok\<close>: the threads are newer than \<open>since\<close> and no more than a positive limit.
  \<open>reported e tp r\<close>: \<open>r\<close> is a creation time \<open>_extract_created_at\<close> can report for \<open>tp\<close>.
\<close>

definition untouched :: "world \<Rightarrow> world \<Rightarrow> bool" where
  "untouched w w1 =
     (issues w1 = issues w \<and> ledger_file w1 = ledger_file w \<and> backup_file w1 = backup_file w)"

definition loop_ok :: "datetime option \<Rightarrow> int option \<Rightarrow> DiscordThread list \<Rightarrow> bool" where
  "loop_ok since limit ths =
     ((\<forall>t\<in>set ths. \<not> not_newer since (created_at t))
      \<and> (\<forall>l. limit = Some l \<and> 0 < l \<longrightarrow> int (length ths) \<le> l))"

definition reported :: "env \<Rightarrow> thread_payload \<Rightarrow> datetime \<Rightarrow> bool" where
  "reported e tp r = (\<exists>w w1. extract_created_at e tp w = (Inr r, w1))"


definition raised_by :: "'a response \<Rightarrow> error + 'a" where
  "raised_by resp =
     (case resp of
        Ok v \<Rightarrow> Inr v
      | BadBody \<Rightarrow> Inl ValueError
      | HttpError code ra \<Rightarrow> if code = 429 then Inl ValueError else Inl (HTTPError code)
      | UrlError \<Rightarrow> Inl URLError
      | Broken \<Rightarrow> Inl OSError)"

text \<open>
  \<open>raised_from e tp t\<close>: the thread \<open>t\<close> is the payload \<open>tp\<close> with, as its creation time, the
  later of a reported creation time and the time of its first message.
\<close>

definition raised_from :: "env \<Rightarrow> thread_payload \<Rightarrow> DiscordThread \<Rightarrow> bool" where
  "raised_from e tp t =
     (\<exists>r. reported e tp r \<and> tp_id tp = Some (thread_id t)
          \<and> created_at t = max r (timestamp (first_message t)))"

subsection \<open>Examples\<close>

text \<open>
  An environment for the examples: the clock reads the seconds 30, 31, ... of the epoch,
  Discord serves a list of active threads with their messages and nothing archived,
  and GitHub accepts every issue. \<open>test_isoformat\<close> is \<open>isoformat\<close> on the whole seconds
  of the first minute of the epoch, the only instants of the examples.
\<close>

definition test_isoformat :: "datetime \<Rightarrow> string" where
  "test_isoformat t =
     (if 0 \<le> t \<and> t < 60000000 \<and> t mod 1000000 = 0
      then ''1970-01-01T00:00:'' @ [char_of (48 + nat (t div 10000000)),
                                     char_of (48 + nat ((t div 1000000) mod 10))] @ ''+00:00''
      else ''?'')"

definition test_message_payload :: "string \<Rightarrow> ts_field \<Rightarrow> message_payload" where
  "test_message_payload mid t =
     \<lparr>mp_id = Some mid, mp_author_id = Some ''7'', mp_global_name = None,
      mp_username = Some ''licht'', mp_content = Some ''It crashed '', mp_timestamp = t,
      mp_attachments = []\<rparr>"

definition test_thread_payload ::
  "string \<Rightarrow> string \<Rightarrow> ts_field \<Rightarrow> message_payload list \<Rightarrow> thread_payload" where
  "test_thread_payload tid nm t msgs =
     \<lparr>tp_id = Some tid, tp_guild_id = Some ''55'', tp_name = Some nm, tp_owner_id = Some ''7'',
      tp_applied_tags = [], tp_create_timestamp = t, tp_archive_timestamp = Absent,
      tp_timestamp = Absent, tp_created_at = t, tp_messages = msgs\<rparr>"

definition test_env :: "thread_payload list \<Rightarrow> env" where
  "test_env tps =
     \<lparr>isoformat = test_isoformat,
      clock = (\<lambda>n. (30 + int n) * 1000000),
      channel_api = (\<lambda>n p. Ok \<lparr>cp_id = Some ''123456789012345678'', cp_available_tags = []\<rparr>),
      threads_api = (\<lambda>n p. if p = ''/channels/123456789012345678/threads/active''
                             then Ok \<lparr>pg_threads = tps, pg_has_more = False\<rparr>
                             else Ok \<lparr>pg_threads = [], pg_has_more = False\<rparr>),
      messages_api =
        (\<lambda>n p. case find (\<lambda>tp. ''/channels/'' @ py_str (tp_id tp) @ ''/messages?limit=50'' = p) tps of
                  Some tp \<Rightarrow> Ok (tp_messages tp)
                | None \<Rightarrow> HttpError 404 NoHeader),
      github_api = (\<lambda>n r. None)\<rparr>"

definition offline_client :: "thread_payload list \<Rightarrow> DiscordClient" where
  "offline_client tps =
     test_client\<lparr>offline_payload :=
        Some \<lparr>os_channel = \<lparr>cp_id = Some ''123456789012345678'', cp_available_tags = []\<rparr>,
              os_threads = tps\<rparr>\<rparr>"

definition test_world :: world where
  "test_world = \<lparr>now_calls = 0, requests = 0, slept = [], issues = [],
                  ledger_file = None, backup_file = None\<rparr>"

definition test_state :: StateStore where
  "test_state = \<lparr>backup_enabled = False, processed = [], last_synced_at = None\<rparr>"

text \<open>
  Two threads: \<open>Crash\<close>, reported as created at second 10 with its first message at
  second 5, and \<open>Freeze\<close>, reported as created at second 3 with its first message at
  second 5. And two threads created at the same second.
\<close>

definition two_threads :: "thread_payload list" where
  "two_threads =
     [test_thread_payload ''1'' ''Crash'' (At 10000000) [test_message_payload ''m1'' (At 5000000)],
      test_thread_payload ''2'' ''Freeze'' (At 3000000) [test_message_payload ''m2'' (At 5000000)]]"

definition twin_threads :: "thread_payload list" where
  "twin_threads =
     [test_thread_payload ''1'' ''Crash'' (At 5000000) [test_message_payload ''m1'' (At 5000000)],
      test_thread_payload ''2'' ''Freeze'' (At 5000000) [test_message_payload ''m2'' (At 5000000)]]"

text \<open>
  What the first run over the two threads leaves: the ledger, the requests, the world.
\<close>

definition first_state :: StateStore where
  "first_state =
     \<lparr>backup_enabled = False,
      processed = [(''2'', ''1970-01-01T00:00:03+00:00''), (''1'', ''1970-01-01T00:00:10+00:00'')],
      last_synced_at = Some ''1970-01-01T00:00:31+00:00''\<rparr>"

definition test_request :: "string \<Rightarrow> issue_request" where
  "test_request nm =
     \<lparr>req_title = nm, req_body = ''It crashed'', req_labels = [''discord'', ''triage''],
      req_assignees = [''licht'']\<rparr>"

definition first_world :: world where
  "first_world =
     save first_state
       (test_world\<lparr>now_calls := 2,
                   issues := [test_request ''[Discord] Freeze'', test_request ''[Discord] Crash'']\<rparr>)"

text \<open>The same environment with a GitHub that rejects the first issue it is sent.\<close>

definition rejecting_env :: "thread_payload list \<Rightarrow> env" where
  "rejecting_env tps =
     (test_env tps)\<lparr>github_api := (\<lambda>n r. if n = 0 then Some (HTTPError 422) else None)\<rparr>"



definition down_api :: "nat \<Rightarrow> unit response" where
  "down_api n = UrlError"



section \<open>Properties of the template engine\<close>











section \<open>Properties of the labels\<close>

lemma isspace_code: "isspace d \<Longrightarrow> (of_char d :: nat) \<in> {9,10,11,12,13,28,29,30,31,32,133,160}"
  by (auto simp: isspace_def)

lemma lower_not_space: "\<not> isspace c \<Longrightarrow> \<not> isspace (lower_char c)"
proof (cases "lower_char c = c")
  case True
  then show "\<not> isspace c \<Longrightarrow> \<not> isspace (lower_char c)" by simp
next
  case False
  let ?n = "of_char c :: nat"
  from False have r: "(65 \<le> ?n \<and> ?n \<le> 90) \<or> (192 \<le> ?n \<and> ?n \<le> 214) \<or> (216 \<le> ?n \<and> ?n \<le> 222)"
    and l: "lower_char c = char_of (?n + 32)"
    by (auto simp: lower_char_def Let_def split: if_splits)
  have "(of_char (lower_char c) :: nat) = (?n + 32) mod 256"
    unfolding l by simp
  also have "\<dots> = ?n + 32" using r by auto
  finally have "(of_char (lower_char c) :: nat) \<notin> {9,10,11,12,13,28,29,30,31,32,133,160}"
    using r by auto
  then show "\<not> isspace (lower_char c)" using isspace_code by blast
qed

lemma dedup_append: "distinct ls \<Longrightarrow> dedup (ls @ xs) = ls @ dedup (filter (\<lambda>y. y \<notin> set ls) xs)"
proof (induction ls arbitrary: xs)
  case Nil
  then show ?case by simp
next
  case (Cons a ls)
  have f: "filter (\<lambda>y. y \<noteq> a) ls = ls" using Cons.prems by (auto simp: filter_id_conv)
  have "dedup ((a # ls) @ xs) = a # dedup (ls @ filter (\<lambda>y. y \<noteq> a) xs)"
    by (simp add: f)
  also have "\<dots> = a # ls @ dedup (filter (\<lambda>y. y \<notin> set ls) (filter (\<lambda>y. y \<noteq> a) xs))"
    using Cons by simp
  also have "filter (\<lambda>y. y \<notin> set ls) (filter (\<lambda>y. y \<noteq> a) xs) = filter (\<lambda>y. y \<notin> set (a # ls)) xs"
    by (auto intro: filter_cong)
  finally show ?case by simp
qed

lemma dedup_distinct: "distinct ls \<Longrightarrow> dedup ls = ls"
  using dedup_append[of ls "[]"] by simp

lemma set_dedup: "set (dedup xs) = set xs"
  by (induction xs rule: dedup.induct) auto

lemma distinct_dedup: "distinct (dedup xs)"
  by (induction xs rule: dedup.induct) (auto simp: set_dedup)

lemma fold_add_label:
  "distinct ls \<Longrightarrow> fold add_label xs (ls, set ls) = (dedup (ls @ xs), set ls \<union> set xs)"
proof (induction xs arbitrary: ls)
  case Nil
  then show ?case by (simp add: dedup_distinct)
next
  case (Cons x xs)
  show ?case
  proof (cases "x \<in> set ls")
    case True
    have "dedup (ls @ x # xs) = dedup (ls @ xs)"
      using Cons.prems True by (simp add: dedup_append)
    then show ?thesis using Cons True by (auto simp: add_label_def)
  next
    case False
    have d: "distinct (ls @ [x])" using Cons.prems False by simp
    have "fold add_label (x # xs) (ls, set ls) = fold add_label xs (ls @ [x], set (ls @ [x]))"
      using False by (simp add: add_label_def)
    also have "\<dots> = (dedup ((ls @ [x]) @ xs), set (ls @ [x]) \<union> set xs)"
      using Cons.IH[OF d] .
    finally show ?thesis by auto
  qed
qed

lemma in_set_dropWhile: "\<not> P c \<Longrightarrow> c \<in> set xs \<Longrightarrow> c \<in> set (dropWhile P xs)"
  by (induction xs) auto

lemma strip_nonempty: "c \<in> set s \<Longrightarrow> \<not> isspace c \<Longrightarrow> strip s \<noteq> []"
proof -
  assume a: "c \<in> set s" "\<not> isspace c"
  have 1: "c \<in> set (dropWhile isspace s)"
    using in_set_dropWhile[of isspace c s] a by simp
  have 2: "c \<in> set (rev (dropWhile isspace s))" using 1 by simp
  have 3: "c \<in> set (dropWhile isspace (rev (dropWhile isspace s)))"
    using in_set_dropWhile[of isspace c "rev (dropWhile isspace s)"] a(2) 2 by simp
  have "c \<in> set (strip s)" unfolding strip_def using 3 by simp
  then show ?thesis by (cases "strip s") simp_all
qed

lemma strip_last_nonspace: "strip s \<noteq> [] \<Longrightarrow> \<not> isspace (last (strip s))"
proof -
  assume "strip s \<noteq> []"
  then have n: "dropWhile isspace (rev (dropWhile isspace s)) \<noteq> []" by (simp add: strip_def)
  have "last (strip s) = hd (dropWhile isspace (rev (dropWhile isspace s)))"
    using n by (simp add: strip_def last_rev)
  then show ?thesis using hd_dropWhile[OF n] by simp
qed

lemma space_hyphen_not_space: "\<not> isspace d \<Longrightarrow> \<not> isspace (if d = CHR '' '' then CHR ''-'' else d)"
  by (cases "d = CHR '' ''") (simp_all add: isspace_def)

lemma sanitize_has_nonspace: "\<exists>c\<in>set (sanitize_label v). \<not> isspace c"
proof (cases "strip v = []")
  case True
  then have "sanitize_label v = ''untitled''"
    by (simp add: sanitize_label_def lower_def replace_space_hyphen_def)
  moreover have "\<not> isspace (CHR ''u'')" by (simp add: isspace_def)
  ultimately show ?thesis by simp
next
  case False
  let ?f = "\<lambda>c. if lower_char c = CHR '' '' then CHR ''-'' else lower_char c"
  have s: "sanitize_label v = map ?f (strip v)"
    using False by (simp add: sanitize_label_def lower_def replace_space_hyphen_def Let_def)
  have l: "last (strip v) \<in> set (strip v)" using False by simp
  have n: "\<not> isspace (?f (last (strip v)))"
    using space_hyphen_not_space[OF lower_not_space[OF strip_last_nonspace[OF False]]] .
  have "?f (last (strip v)) \<in> set (sanitize_label v)"
    unfolding s set_map using l by (rule imageI)
  then show ?thesis using n by blast
qed

lemma fallback_nonempty: "strip (p @ sanitize_label v) \<noteq> []"
proof -
  obtain c where "c \<in> set (sanitize_label v)" "\<not> isspace c"
    using sanitize_has_nonspace by blast
  then show ?thesis using strip_nonempty[of c "p @ sanitize_label v"] by simp
qed

lemma add_tag_eq:
  "add_tag config av t st = fold add_label (tag_labels config av t) st"
proof -
  let ?v = "strip (fallback_label_prefix config @ sanitize_label (resolve_tag_name av t))"
  have n: "?v \<noteq> []"
    by (rule fallback_nonempty)
  have fb: "(if ?v \<noteq> [] \<and> ?v \<notin> snd st then (fst st @ [?v], insert ?v (snd st)) else st)
              = fold add_label [?v] st"
    using n by (cases st) (simp add: add_label_def)
  show ?thesis
  proof (cases "tag_label_map config t")
    case None
    then show ?thesis using fb by (simp add: add_tag_def tag_labels_def Let_def)
  next
    case (Some mapped)
    then show ?thesis using fb
      by (cases mapped) (simp_all add: add_tag_def tag_labels_def Let_def)
  qed
qed

lemma fold_add_tag:
  "fold (add_tag config av) ts st = fold add_label (concat (map (tag_labels config av) ts)) st"
  by (induction ts arbitrary: st) (simp_all add: add_tag_eq)

lemma build_labels_eq:
  "build_labels config av thread =
     dedup (default_labels config @ concat (map (tag_labels config av) (applied_tag_ids thread)))"
proof -
  have "fold (add_tag config av) (applied_tag_ids thread)
            (fold add_label (default_labels config) ([], {}))
        = fold add_label (default_labels config @ concat (map (tag_labels config av) (applied_tag_ids thread))) ([], set [])"
    by (simp add: fold_add_tag)
  also have "\<dots> = (dedup ([] @ default_labels config @ concat (map (tag_labels config av) (applied_tag_ids thread))),
       set [] \<union> set (default_labels config @ concat (map (tag_labels config av) (applied_tag_ids thread))))"
    by (rule fold_add_label) simp
  finally show ?thesis by (simp add: build_labels_def)
qed

lemma last_dropWhile_keep: "dropWhile P xs \<noteq> [] \<Longrightarrow> last (dropWhile P xs) = last xs"
  by (induction xs) (auto split: if_splits)

lemma strip_hd_nonspace: "strip s \<noteq> [] \<Longrightarrow> \<not> isspace (hd (strip s))"
proof -
  assume ne: "strip s \<noteq> []"
  let ?w = "dropWhile isspace s"
  have n: "dropWhile isspace (rev ?w) \<noteq> []" using ne by (simp add: strip_def)
  have w: "?w \<noteq> []"
  proof
    assume e: "?w = []"
    have "dropWhile isspace (rev ?w) = []" unfolding e by simp
    then show False using n by simp
  qed
  have "hd (strip s) = last (dropWhile isspace (rev ?w))"
    using n by (simp add: strip_def hd_rev)
  also have "\<dots> = last (rev ?w)" using n by (rule last_dropWhile_keep)
  also have "\<dots> = hd ?w" using w by (simp add: last_rev)
  finally show ?thesis using hd_dropWhile[OF w] by simp
qed

lemma strip_id: "s \<noteq> [] \<Longrightarrow> \<not> isspace (hd s) \<Longrightarrow> \<not> isspace (last s) \<Longrightarrow> strip s = s"
proof -
  assume a: "s \<noteq> []" "\<not> isspace (hd s)" "\<not> isspace (last s)"
  have 1: "dropWhile isspace s = s" using a(1,2) by (cases s) simp_all
  have 2: "dropWhile isspace (rev s) = rev s"
    using a(1,3) by (simp add: dropWhile_eq_self_iff hd_rev)
  show ?thesis by (simp add: strip_def 1 2)
qed

lemma sanitize_ends:
  "sanitize_label v \<noteq> [] \<and> \<not> isspace (hd (sanitize_label v)) \<and> \<not> isspace (last (sanitize_label v))"
proof (cases "strip v = []")
  case True
  then have "sanitize_label v = ''untitled''"
    by (simp add: sanitize_label_def lower_def replace_space_hyphen_def)
  moreover have "\<not> isspace (CHR ''u'')" "\<not> isspace (CHR ''d'')" by (simp_all add: isspace_def)
  ultimately show ?thesis by simp
next
  case False
  let ?f = "\<lambda>c. if lower_char c = CHR '' '' then CHR ''-'' else lower_char c"
  have s: "sanitize_label v = map ?f (strip v)"
    using False by (simp add: sanitize_label_def lower_def replace_space_hyphen_def Let_def)
  have h: "hd (sanitize_label v) = ?f (hd (strip v))"
    unfolding s using False by (simp add: hd_map)
  have l: "last (sanitize_label v) = ?f (last (strip v))"
    unfolding s using False by (simp add: last_map)
  have nh: "\<not> isspace (?f (hd (strip v)))"
    using space_hyphen_not_space[OF lower_not_space[OF strip_hd_nonspace[OF False]]] .
  have nl: "\<not> isspace (?f (last (strip v)))"
    using space_hyphen_not_space[OF lower_not_space[OF strip_last_nonspace[OF False]]] .
  show ?thesis using False nh nl unfolding h l by (simp add: s)
qed

lemma fallback_verbatim:
  assumes "p = [] \<or> \<not> isspace (hd p)"
  shows "strip (p @ sanitize_label v) = p @ sanitize_label v"
proof -
  have e: "sanitize_label v \<noteq> []" "\<not> isspace (hd (sanitize_label v))"
    "\<not> isspace (last (sanitize_label v))" using sanitize_ends[of v] by simp_all
  have 1: "p @ sanitize_label v \<noteq> []" using e(1) by simp
  have 2: "\<not> isspace (hd (p @ sanitize_label v))" using assms e(2) by (cases p) simp_all
  have 3: "\<not> isspace (last (p @ sanitize_label v))" using e(1,3) by simp
  show ?thesis using strip_id[OF 1 2 3] .
qed

lemma set_build_labels:
  "set (build_labels config discord thread) =
     set (default_labels config) \<union> (\<Union>t\<in>set (applied_tag_ids thread). set (tag_labels config discord t))"
  by (simp add: build_labels_eq set_dedup)

section \<open>Properties of the run loop\<close>

lemma update_fresh: "k \<notin> fst ` set al \<Longrightarrow> AList.update k v al = al @ [(k, v)]"
  by (induction al) auto

lemma has_processed_keys: "has_processed st tid = (tid \<in> keys st)"
  by (simp add: has_processed_def keys_def)

lemma run_loop_trace:
  "run_loop e config discord threads st c w = (Inr (st1, c1), w1) \<Longrightarrow>
     issues w1 = issues w @ map (request_of e config discord) (submitted (keys st) threads)
   \<and> processed st1 = processed st @ map (entry_of e) (submitted (keys st) threads)
   \<and> c1 = c + length (submitted (keys st) threads)
   \<and> keys st1 = keys st \<union> thread_id ` set threads
   \<and> ledger_file w1 = ledger_file w \<and> backup_file w1 = backup_file w
   \<and> backup_enabled st1 = backup_enabled st"
proof (induction threads arbitrary: st c w)
  case Nil
  then show ?case by simp
next
  case (Cons t ts)
  show ?case
  proof (cases "has_processed st (thread_id t)")
    case True
    then have "run_loop e config discord ts st c w = (Inr (st1, c1), w1)"
      using Cons.prems by simp
    from Cons.IH[OF this] True show ?thesis
      by (auto simp: has_processed_keys)
  next
    case False
    then obtain bd where b: "build_body e config t = Inr bd"
      using Cons.prems by (auto split: sum.splits)
    let ?r = "issue_for config discord t bd"
    let ?wa = "w\<lparr>issues := issues w @ [?r]\<rparr>"
    have ci: "create_issue e ?r w = (Inr (), ?wa)"
      using Cons.prems False b by (auto simp: create_issue_def Let_def split: option.splits)
    obtain sa wb where mp: "mark_processed e st (thread_id t) (created_at t) ?wa = (sa, wb)"
      by (cases "mark_processed e st (thread_id t) (created_at t) ?wa") auto
    have sa: "processed sa = AList.update (thread_id t) (isoformat e (created_at t)) (processed st)"
      "backup_enabled sa = backup_enabled st"
      using mp by (auto simp: mark_processed_def now_def)
    have wb: "issues wb = issues w @ [?r]" "ledger_file wb = ledger_file w"
      "backup_file wb = backup_file w"
      using mp by (auto simp: mark_processed_def now_def)
    have rec: "run_loop e config discord ts sa (c + 1) wb = (Inr (st1, c1), w1)"
      using Cons.prems False b ci mp by simp
    have fresh: "thread_id t \<notin> fst ` set (processed st)"
      using False by (simp add: has_processed_def)
    have pa: "processed sa = processed st @ [entry_of e t]"
      using update_fresh[OF fresh] by (simp add: entry_of_def sa)
    have ka: "keys sa = insert (thread_id t) (keys st)"
      unfolding keys_def pa by (auto simp: entry_of_def)
    have rq: "request_of e config discord t = ?r"
      by (simp add: request_of_def b)
    have sub: "submitted (keys st) (t # ts) = t # submitted (keys sa) ts"
      using False by (simp add: has_processed_keys ka)
    from Cons.IH[OF rec] show ?thesis
      unfolding sub by (auto simp: pa ka rq wb sa)
  qed
qed

lemma submitted_sublist: "set (submitted S ts) \<subseteq> set ts"
  by (induction ts arbitrary: S) auto

lemma submitted_sorted:
  "sorted (map f ts) \<Longrightarrow> sorted (map f (submitted S ts))"
proof (induction ts arbitrary: S)
  case Nil
  then show ?case by simp
next
  case (Cons t ts)
  then show ?case using submitted_sublist[of "insert (thread_id t) S" ts] by auto
qed

lemma submitted_none: "thread_id ` set ts \<subseteq> S \<Longrightarrow> submitted S ts = []"
  by (induction ts) auto

lemma run_loop_all_skipped:
  "thread_id ` set threads \<subseteq> keys st \<Longrightarrow> run_loop e config discord threads st c w = (Inr (st, c), w)"
  by (induction threads) (auto simp: has_processed_keys)

lemma submitted_subseq: "subseq (submitted S ts) ts"
  by (induction ts arbitrary: S) auto

lemma run_loop_calls:
  "run_loop e config discord threads st c w = (r, w1) \<Longrightarrow>
   \<exists>j. issues w1 = issues w
          @ map (request_of e config discord) (take j (submitted (keys st) threads))"
proof (induction threads arbitrary: st c w)
  case Nil
  then show ?case by simp
next
  case (Cons t ts)
  show ?case
  proof (cases "has_processed st (thread_id t)")
    case True
    then have "run_loop e config discord ts st c w = (r, w1)"
      using Cons.prems by simp
    from Cons.IH[OF this] True show ?thesis
      by (simp add: has_processed_keys)
  next
    case False
    note np = False
    have sub: "submitted (keys st) (t # ts) = t # submitted (insert (thread_id t) (keys st)) ts"
      using np by (simp add: has_processed_keys)
    show ?thesis
    proof (cases "build_body e config t")
      case (Inl err)
      then have "w1 = w" using Cons.prems np by simp
      then show ?thesis by (intro exI[of _ 0]) simp
    next
      case (Inr bd)
      let ?r = "issue_for config discord t bd"
      let ?wa = "w\<lparr>issues := issues w @ [?r]\<rparr>"
      have rq: "request_of e config discord t = ?r"
        by (simp add: request_of_def Inr)
      show ?thesis
      proof (cases "github_api e (length (issues w)) ?r")
        case (Some err)
        then have "w1 = ?wa"
          using Cons.prems np Inr by (simp add: create_issue_def Let_def)
        then show ?thesis unfolding sub by (intro exI[of _ 1]) (simp add: rq)
      next
        case None
        then have ci: "create_issue e ?r w = (Inr (), ?wa)"
          by (simp add: create_issue_def Let_def)
        obtain sa wb where mp: "mark_processed e st (thread_id t) (created_at t) ?wa = (sa, wb)"
          by (cases "mark_processed e st (thread_id t) (created_at t) ?wa") auto
        have sa: "processed sa = AList.update (thread_id t) (isoformat e (created_at t)) (processed st)"
          using mp by (auto simp: mark_processed_def now_def)
        have wb: "issues wb = issues w @ [?r]"
          using mp by (auto simp: mark_processed_def now_def)
        have fresh: "thread_id t \<notin> fst ` set (processed st)"
          using np by (simp add: has_processed_def)
        have ka: "keys sa = insert (thread_id t) (keys st)"
          unfolding keys_def sa update_fresh[OF fresh] by auto
        have rec: "run_loop e config discord ts sa (c + 1) wb = (r, w1)"
          using Cons.prems np Inr ci mp by simp
        from Cons.IH[OF rec] obtain j where
          "issues w1 = issues wb @ map (request_of e config discord) (take j (submitted (keys sa) ts))"
          by blast
        then show ?thesis unfolding sub ka
          by (intro exI[of _ "Suc j"]) (simp add: wb rq)
      qed
    qed
  qed
qed

section \<open>Properties of the Discord client\<close>

lemma untouched_refl: "untouched w w"
  by (simp add: untouched_def)

lemma untouched_trans: "untouched w w1 \<Longrightarrow> untouched w1 w2 \<Longrightarrow> untouched w w2"
  by (simp add: untouched_def)

lemma parse_timestamp_untouched: "parse_timestamp e v w = (r, w1) \<Longrightarrow> untouched w w1"
  by (cases v) (auto simp: parse_timestamp_def now_def untouched_def)

lemma message_from_payload_untouched: "message_from_payload e p w = (r, w1) \<Longrightarrow> untouched w w1"
  by (auto simp: message_from_payload_def split: prod.splits sum.splits dest: parse_timestamp_untouched)

lemma messages_from_payloads_untouched: "messages_from_payloads e ps w = (r, w1) \<Longrightarrow> untouched w w1"
proof (induction ps arbitrary: w r w1)
  case Nil
  then show ?case by (simp add: untouched_def)
next
  case (Cons p ps)
  obtain r1 wa where m: "message_from_payload e p w = (r1, wa)" by (cases "message_from_payload e p w") auto
  have u1: "untouched w wa" using m by (rule message_from_payload_untouched)
  show ?case
  proof (cases r1)
    case (Inl err)
    then show ?thesis using Cons.prems m u1 by simp
  next
    case (Inr msg)
    obtain r2 wb where n: "messages_from_payloads e ps wa = (r2, wb)" by (cases "messages_from_payloads e ps wa") auto
    have u2: "untouched wa wb" using Cons.IH[OF n] .
    have "w1 = wb" using Cons.prems m Inr n by (cases r2) auto
    then show ?thesis using u1 u2 untouched_trans by blast
  qed
qed

lemma execute_from_untouched: "execute_from api m as w = (r, w1) \<Longrightarrow> untouched w w1"
proof (induction as arbitrary: w)
  case Nil
  then show ?case by (simp add: untouched_def)
next
  case (Cons a as)
  let ?w1 = "w\<lparr>requests := requests w + 1\<rparr>"
  have s: "untouched w (sleep p ?w1)" for p by (simp add: untouched_def sleep_def)
  have t: "untouched w ?w1" by (simp add: untouched_def)
  show ?case
  proof (cases "api (requests w)")
    case (Ok v)
    then show ?thesis using Cons.prems t by (simp add: Let_def)
  next
    case BadBody
    then show ?thesis using Cons.prems t by (simp add: Let_def)
  next
    case (HttpError code ra)
    then show ?thesis using Cons.prems t
      by (cases ra) (auto simp: Let_def split: if_splits dest!: Cons.IH intro: untouched_trans[OF s])
  next
    case UrlError
    then show ?thesis using Cons.prems t
      by (auto simp: Let_def split: if_splits dest!: Cons.IH intro: untouched_trans[OF s])
  next
    case Broken
    then show ?thesis using Cons.prems t by (simp add: Let_def)
  qed
qed

lemma get_untouched: "get api path d w = (r, w1) \<Longrightarrow> untouched w w1"
  by (auto simp: get_def execute_def untouched_refl split: if_splits dest: execute_from_untouched)

lemma fetch_thread_messages_untouched: "fetch_thread_messages e d tid w = (r, w1) \<Longrightarrow> untouched w w1"
  by (auto simp: fetch_thread_messages_def untouched_refl split: option.splits prod.splits sum.splits
      dest: messages_from_payloads_untouched get_untouched intro: untouched_trans)

lemma extract_created_at_untouched: "extract_created_at e tp w = (r, w1) \<Longrightarrow> untouched w w1"
  by (auto simp: extract_created_at_def Let_def split: if_splits dest: parse_timestamp_untouched)

lemma fetch_channel_metadata_untouched: "fetch_channel_metadata e d w = (r, w1) \<Longrightarrow> untouched w w1"
  by (auto simp: fetch_channel_metadata_def untouched_refl split: if_splits prod.splits sum.splits
      dest: get_untouched)


lemma offline_loop_step:
  assumes "offline_loop e sample since limit (tp # rest) acc w = (Inr ths, w1)"
  shows "(\<exists>wa. untouched w wa \<and> offline_loop e sample since limit rest acc wa = (Inr ths, w1))
   \<or> (\<exists>wa t. untouched w wa \<and> \<not> not_newer since (created_at t)
         \<and> ((limit_reached limit (Suc (length acc)) \<and> ths = acc @ [t] \<and> w1 = wa)
            \<or> (\<not> limit_reached limit (Suc (length acc))
                \<and> offline_loop e sample since limit rest (acc @ [t]) wa = (Inr ths, w1))))"
proof -
  obtain r1 wa where p: "parse_timestamp e (tp_created_at tp) w = (r1, wa)"
    by (cases "parse_timestamp e (tp_created_at tp) w") auto
  have u1: "untouched w wa" using p by (rule parse_timestamp_untouched)
  obtain created where r1: "r1 = Inr created"
    using assms p by (cases r1) auto
  show ?thesis
  proof (cases "not_newer since created")
    case True
    then have "offline_loop e sample since limit rest acc wa = (Inr ths, w1)"
      using assms p r1 by simp
    then show ?thesis using u1 by blast
  next
    case False
    obtain r2 wb where m: "messages_from_payloads e (tp_messages tp) wa = (r2, wb)"
      by (cases "messages_from_payloads e (tp_messages tp) wa") auto
    have u2: "untouched w wb"
      using u1 messages_from_payloads_untouched[OF m] untouched_trans by blast
    obtain msgs where r2: "r2 = Inr msgs"
      using assms p r1 False m by (cases r2) auto
    show ?thesis
    proof (cases msgs)
      case Nil
      then have "offline_loop e sample since limit rest acc wb = (Inr ths, w1)"
        using assms p r1 False m r2 by simp
      then show ?thesis using u2 by blast
    next
      case (Cons m0 ms)
      let ?t = "offline_thread sample tp created (earliest m0 ms)"
      have c: "\<not> not_newer since (created_at ?t)"
        using False by (simp add: offline_thread_def)
      show ?thesis
      proof (cases "limit_reached limit (Suc (length acc))")
        case True
        then have "ths = acc @ [?t] \<and> w1 = wb"
          using assms p r1 False m r2 Cons by (auto simp: Let_def)
        then show ?thesis using u2 c True by blast
      next
        case F: False
        then have "offline_loop e sample since limit rest (acc @ [?t]) wb = (Inr ths, w1)"
          using assms p r1 False m r2 Cons by (auto simp: Let_def)
        then show ?thesis using u2 c F by blast
      qed
    qed
  qed
qed

lemma live_loop_step:
  assumes "live_loop e d since limit (tp # rest) acc w = (Inr ths, w1)"
  shows "(\<exists>wa. untouched w wa \<and> live_loop e d since limit rest acc wa = (Inr ths, w1))
   \<or> (\<exists>wa t. untouched w wa \<and> \<not> not_newer since (created_at t)
         \<and> timestamp (first_message t) \<le> created_at t \<and> raised_from e tp t
         \<and> ((limit_reached limit (Suc (length acc)) \<and> ths = acc @ [t] \<and> w1 = wa)
            \<or> (\<not> limit_reached limit (Suc (length acc))
                \<and> live_loop e d since limit rest (acc @ [t]) wa = (Inr ths, w1))))"
proof -
  obtain r1 wa where p: "extract_created_at e tp w = (r1, wa)"
    by (cases "extract_created_at e tp w") auto
  have u1: "untouched w wa" using p by (rule extract_created_at_untouched)
  obtain created where r1: "r1 = Inr created"
    using assms p by (cases r1) auto
  show ?thesis
  proof (cases "not_newer since created")
    case True
    then have "live_loop e d since limit rest acc wa = (Inr ths, w1)"
      using assms p r1 by simp
    then show ?thesis using u1 by blast
  next
    case False
    obtain tid where tid: "tp_id tp = Some tid"
      using assms p r1 False by (cases "tp_id tp") auto
    obtain r2 wb where m: "fetch_thread_messages e d tid wa = (r2, wb)"
      by (cases "fetch_thread_messages e d tid wa") auto
    have u2: "untouched w wb"
      using u1 fetch_thread_messages_untouched[OF m] untouched_trans by blast
    obtain msgs where r2: "r2 = Inr msgs"
      using assms p r1 False tid m by (cases r2) auto
    show ?thesis
    proof (cases msgs)
      case Nil
      then have "live_loop e d since limit rest acc wb = (Inr ths, w1)"
        using assms p r1 False tid m r2 by simp
      then show ?thesis using u2 by blast
    next
      case (Cons m0 ms)
      let ?f = "earliest m0 ms"
      let ?c = "if created < timestamp ?f then timestamp ?f else created"
      let ?t = "live_thread d tp tid ?c ?f"
      have c: "\<not> not_newer since (created_at ?t)"
        using False by (auto simp: live_thread_def not_newer_def split: option.splits)
      have k: "timestamp (first_message ?t) \<le> created_at ?t"
        by (simp add: live_thread_def)
      have "reported e tp created" unfolding reported_def using p r1 by blast
      moreover have "created_at ?t = max created (timestamp (first_message ?t))"
        by (simp add: live_thread_def max_def)
      moreover have "tp_id tp = Some (thread_id ?t)" using tid by (simp add: live_thread_def)
      ultimately have q: "raised_from e tp ?t" unfolding raised_from_def by blast
      show ?thesis
      proof (cases "limit_reached limit (Suc (length acc))")
        case True
        then have "ths = acc @ [?t] \<and> w1 = wb"
          using assms p r1 False tid m r2 Cons by (auto simp: Let_def)
        then show ?thesis using u2 c k q True by blast
      next
        case F: False
        then have "live_loop e d since limit rest (acc @ [?t]) wb = (Inr ths, w1)"
          using assms p r1 False tid m r2 Cons by (auto simp: Let_def)
        then show ?thesis using u2 c k q F by blast
      qed
    qed
  qed
qed


lemma offline_loop_inv:
  "offline_loop e sample since limit tps acc w = (Inr ths, w1) \<Longrightarrow>
   \<forall>t\<in>set acc. \<not> not_newer since (created_at t) \<Longrightarrow>
   \<forall>l. limit = Some l \<and> 0 < l \<longrightarrow> int (length acc) < l \<Longrightarrow>
   untouched w w1 \<and> loop_ok since limit ths"
proof (induction tps arbitrary: acc w)
  case Nil
  then show ?case by (auto simp: untouched_refl loop_ok_def)
next
  case (Cons tp rest)
  from offline_loop_step[OF Cons.prems(1)] show ?case
  proof (elim disjE exE conjE)
    fix wa assume a: "untouched w wa" "offline_loop e sample since limit rest acc wa = (Inr ths, w1)"
    from Cons.IH[OF a(2) Cons.prems(2,3)] a(1) show ?thesis
      using untouched_trans by blast
  next
    fix wa t
    assume a: "untouched w wa" "\<not> not_newer since (created_at t)"
      "limit_reached limit (Suc (length acc))" "ths = acc @ [t]" "w1 = wa"
    have "loop_ok since limit ths"
      using a Cons.prems(2,3) by (auto simp: loop_ok_def)
    then show ?thesis using a by simp
  next
    fix wa t
    assume a: "untouched w wa" "\<not> not_newer since (created_at t)"
      "\<not> limit_reached limit (Suc (length acc))"
      "offline_loop e sample since limit rest (acc @ [t]) wa = (Inr ths, w1)"
    have 1: "\<forall>x\<in>set (acc @ [t]). \<not> not_newer since (created_at x)"
      using a(2) Cons.prems(2) by auto
    have 2: "\<forall>l. limit = Some l \<and> 0 < l \<longrightarrow> int (length (acc @ [t])) < l"
      using a(3) by (auto simp: limit_reached_def)
    from Cons.IH[OF a(4) 1 2] a(1) show ?thesis
      using untouched_trans by blast
  qed
qed

lemma live_loop_inv:
  "live_loop e d since limit tps acc w = (Inr ths, w1) \<Longrightarrow>
   \<forall>t\<in>set acc. \<not> not_newer since (created_at t) \<and> timestamp (first_message t) \<le> created_at t \<Longrightarrow>
   \<forall>l. limit = Some l \<and> 0 < l \<longrightarrow> int (length acc) < l \<Longrightarrow>
   untouched w w1 \<and> loop_ok since limit ths
   \<and> (\<forall>t\<in>set ths. timestamp (first_message t) \<le> created_at t)
   \<and> (\<forall>t\<in>set ths. t \<in> set acc \<or> (\<exists>tp\<in>set tps. raised_from e tp t))"
proof (induction tps arbitrary: acc w)
  case Nil
  then show ?case by (auto simp: untouched_refl loop_ok_def)
next
  case (Cons tp rest)
  from live_loop_step[OF Cons.prems(1)] show ?case
  proof (elim disjE exE conjE)
    fix wa assume a: "untouched w wa" "live_loop e d since limit rest acc wa = (Inr ths, w1)"
    from Cons.IH[OF a(2) Cons.prems(2,3)] a(1) show ?thesis
      using untouched_trans by (auto; blast)
  next
    fix wa t
    assume a: "untouched w wa" "\<not> not_newer since (created_at t)"
      "timestamp (first_message t) \<le> created_at t" "raised_from e tp t"
      "limit_reached limit (Suc (length acc))" "ths = acc @ [t]" "w1 = wa"
    have "loop_ok since limit ths"
      using a Cons.prems(2,3) by (auto simp: loop_ok_def)
    moreover have "\<forall>x\<in>set ths. timestamp (first_message x) \<le> created_at x"
      using a Cons.prems(2) by auto
    moreover have "\<forall>x\<in>set ths. x \<in> set acc \<or> (\<exists>p\<in>set (tp # rest). raised_from e p x)"
      using a by auto
    ultimately show ?thesis using a by simp
  next
    fix wa t
    assume a: "untouched w wa" "\<not> not_newer since (created_at t)"
      "timestamp (first_message t) \<le> created_at t" "raised_from e tp t"
      "\<not> limit_reached limit (Suc (length acc))"
      "live_loop e d since limit rest (acc @ [t]) wa = (Inr ths, w1)"
    have 1: "\<forall>x\<in>set (acc @ [t]). \<not> not_newer since (created_at x)
              \<and> timestamp (first_message x) \<le> created_at x"
      using a(2,3) Cons.prems(2) by auto
    have 2: "\<forall>l. limit = Some l \<and> 0 < l \<longrightarrow> int (length (acc @ [t])) < l"
      using a(5) by (auto simp: limit_reached_def)
    have ih: "untouched wa w1 \<and> loop_ok since limit ths
       \<and> (\<forall>t\<in>set ths. timestamp (first_message t) \<le> created_at t)
       \<and> (\<forall>x\<in>set ths. x \<in> set (acc @ [t]) \<or> (\<exists>p\<in>set rest. raised_from e p x))"
      using Cons.IH[OF a(6) 1 2] .
    have "\<forall>x\<in>set ths. x \<in> set acc \<or> (\<exists>p\<in>set (tp # rest). raised_from e p x)"
      using ih a(4) by auto
    then show ?thesis using ih a(1) untouched_trans by blast
  qed
qed

lemma paginate_untouched_aux:
  assumes a: "paginate e0 d0 limit0 payload0 b0 collected0 w0 = Some y0"
  shows "untouched w0 (snd y0)"
proof (rule paginate.raw_induct
         [where P = "\<lambda>e d limit payload b collected w y. untouched w (snd y)", OF _ a])
  fix f e d limit payload b collected w y
  assume ih: "\<And>a1 a2 a3 a4 a5 a6 w y.
                 f a1 a2 a3 a4 a5 a6 w = Some y \<Longrightarrow> untouched w (snd y)"
    and st: "(if pg_has_more payload \<and> cursor_set b
      then case get (threads_api e)
                 (''/channels/'' @ client_channel_id d @ ''/threads/archived/public?before='' @ the b)
                 d w of
           (Inl err, w1) \<Rightarrow> Some (Inl err, w1)
           | (Inr payload1, w1) \<Rightarrow>
               let collected1 = collected @ pg_threads payload1
               in if limit_reached limit (length collected1)
                  then Some (Inr collected1, w1)
                  else case last_id (pg_threads payload1) of
                       Inl err \<Rightarrow> Some (Inl err, w1)
                       | Inr before_id1 \<Rightarrow> f e d limit payload1 before_id1 collected1 w1
      else Some (Inr collected, w)) = Some y"
  show "untouched w (snd y)"
  proof (cases "pg_has_more payload \<and> cursor_set b")
    case False
    then show ?thesis using st by (auto simp: untouched_refl)
  next
    case True
    let ?p = "''/channels/'' @ client_channel_id d @ ''/threads/archived/public?before='' @ the b"
    obtain r1 wa where g: "get (threads_api e) ?p d w = (r1, wa)"
      by (cases "get (threads_api e) ?p d w") auto
    have u: "untouched w wa" using g by (rule get_untouched)
    show ?thesis
    proof (cases r1)
      case (Inl err)
      then show ?thesis using st True g u by auto
    next
      case (Inr p1)
      show ?thesis
      proof (cases "limit_reached limit (length (collected @ pg_threads p1))")
        case T: True
        then show ?thesis using st True g u Inr by (auto simp: Let_def)
      next
        case F: False
        show ?thesis
        proof (cases "last_id (pg_threads p1)")
          case (Inl err)
          then show ?thesis using st True g u Inr F by (auto simp: Let_def)
        next
          case R: (Inr b1)
          have rc: "f e d limit p1 b1 (collected @ pg_threads p1) wa = Some y"
            using st True g Inr F R by (simp add: Let_def)
          have "untouched wa (snd y)" using rc by (rule ih)
          then show ?thesis using u untouched_trans by blast
        qed
      qed
    qed
  qed
qed

lemma paginate_untouched:
  "paginate e d limit payload b collected w = Some (r, w1) \<Longrightarrow> untouched w w1"
  using paginate_untouched_aux by fastforce

lemma collect_threads_untouched:
  "collect_threads e d limit w = Some (r, w1) \<Longrightarrow> untouched w w1"
proof -
  assume a: "collect_threads e d limit w = Some (r, w1)"
  let ?pa = "''/channels/'' @ client_channel_id d @ ''/threads/active''"
  let ?pb = "''/channels/'' @ client_channel_id d @ ''/threads/archived/public''"
  obtain r1 wa where g1: "get (threads_api e) ?pa d w = (r1, wa)"
    by (cases "get (threads_api e) ?pa d w") auto
  have u1: "untouched w wa" using g1 by (rule get_untouched)
  show ?thesis
  proof (cases r1)
    case (Inl err)
    then show ?thesis using a g1 u1 by (simp add: collect_threads_def)
  next
    case (Inr active)
    show ?thesis
    proof (cases "limit_reached limit (length (pg_threads active))")
      case True
      then show ?thesis using a g1 u1 Inr by (simp add: collect_threads_def)
    next
      case False
      obtain r2 wb where g2: "get (threads_api e) ?pb d wa = (r2, wb)"
        by (cases "get (threads_api e) ?pb d wa") auto
      have u2: "untouched w wb" using u1 get_untouched[OF g2] untouched_trans by blast
      show ?thesis
      proof (cases r2)
        case (Inl err)
        then show ?thesis using a g1 Inr False g2 u2 by (simp add: collect_threads_def)
      next
        case R: (Inr archived)
        from a g1 Inr False g2 R
        have "w1 = wb \<or> (\<exists>b. paginate e d limit archived b (pg_threads active @ pg_threads archived) wb = Some (r, w1))"
          by (auto simp: collect_threads_def Let_def split: if_splits sum.splits)
        then show ?thesis using u2 paginate_untouched untouched_trans by blast
      qed
    qed
  qed
qed

lemma loop_ok_sort: "loop_ok since limit ths \<Longrightarrow> loop_ok since limit (sort_key created_at ths)"
  by (simp add: loop_ok_def)

lemma fetch_threads_props:
  assumes "fetch_threads e d since limit w = Some (Inr (ths, d1), w1)"
  shows "untouched w w1" and "sorted (map created_at ths)" and "loop_ok since limit ths"
    and "offline_payload d = None \<Longrightarrow> \<forall>t\<in>set ths. timestamp (first_message t) \<le> created_at t"
proof -
  have "untouched w w1 \<and> sorted (map created_at ths) \<and> loop_ok since limit ths
      \<and> (offline_payload d = None \<longrightarrow> (\<forall>t\<in>set ths. timestamp (first_message t) \<le> created_at t))"
  proof (cases "offline_payload d")
    case (Some sample)
    obtain r wa where l: "offline_loop e sample since limit (os_threads sample) [] w = (r, wa)"
      by (cases "offline_loop e sample since limit (os_threads sample) [] w") auto
    obtain raw where r: "r = Inr raw" "ths = sort_key created_at raw" "w1 = wa"
      using assms Some l by (cases r) (auto simp: fetch_threads_def threads_from_offline_def)
    have "untouched w wa \<and> loop_ok since limit raw"
      using offline_loop_inv[OF l[unfolded r(1)]] by simp
    then show ?thesis using r Some by (simp add: loop_ok_sort)
  next
    case None
    obtain r0 wa where m: "fetch_channel_metadata e d w = (r0, wa)"
      by (cases "fetch_channel_metadata e d w") auto
    have u0: "untouched w wa" using m by (rule fetch_channel_metadata_untouched)
    obtain da where r0: "r0 = Inr da"
      using assms None m by (cases r0) (auto simp: fetch_threads_def)
    obtain r1 wb where c: "collect_threads e da limit wa = Some (r1, wb)"
      using assms None m r0 by (cases "collect_threads e da limit wa") (auto simp: fetch_threads_def)
    have u1: "untouched wa wb" using c by (rule collect_threads_untouched)
    obtain collected where r1: "r1 = Inr collected"
      using assms None m r0 c by (cases r1) (auto simp: fetch_threads_def)
    obtain r2 wc where l: "live_loop e da since limit collected [] wb = (r2, wc)"
      by (cases "live_loop e da since limit collected [] wb") auto
    obtain raw where r2: "r2 = Inr raw" "ths = sort_key created_at raw" "w1 = wc"
      using assms None m r0 c r1 l by (cases r2) (auto simp: fetch_threads_def)
    have i: "untouched wb wc \<and> loop_ok since limit raw
           \<and> (\<forall>t\<in>set raw. timestamp (first_message t) \<le> created_at t)"
      using live_loop_inv[OF l[unfolded r2(1)]] by simp
    have "untouched w w1" using u0 u1 i r2(3) untouched_trans by blast
    then show ?thesis using i r2 by (simp add: loop_ok_sort)
  qed
  then show "untouched w w1" and "sorted (map created_at ths)" and "loop_ok since limit ths"
    and "offline_payload d = None \<Longrightarrow> \<forall>t\<in>set ths. timestamp (first_message t) \<le> created_at t"
    by simp_all
qed

lemma offline_loop_untouched:
  "offline_loop e sample since limit tps acc w = (r, w1) \<Longrightarrow> untouched w w1"
proof (induction tps arbitrary: acc w)
  case Nil
  then show ?case by (simp add: untouched_def)
next
  case (Cons tp rest)
  obtain r1 wa where p: "parse_timestamp e (tp_created_at tp) w = (r1, wa)"
    by (cases "parse_timestamp e (tp_created_at tp) w") auto
  have u1: "untouched w wa" using p by (rule parse_timestamp_untouched)
  show ?case
  proof (cases r1)
    case (Inl err)
    then show ?thesis using Cons.prems p u1 by simp
  next
    case (Inr created)
    show ?thesis
    proof (cases "not_newer since created")
      case True
      then have "offline_loop e sample since limit rest acc wa = (r, w1)"
        using Cons.prems p Inr by simp
      from Cons.IH[OF this] u1 show ?thesis by (rule untouched_trans[rotated])
    next
      case False
      obtain r2 wb where m: "messages_from_payloads e (tp_messages tp) wa = (r2, wb)"
        by (cases "messages_from_payloads e (tp_messages tp) wa") auto
      have u2: "untouched w wb"
        using u1 messages_from_payloads_untouched[OF m] by (rule untouched_trans)
      show ?thesis
      proof (cases r2)
        case (Inl err)
        then show ?thesis using Cons.prems p \<open>r1 = Inr created\<close> False m u2 by simp
      next
        case (Inr ms)
        show ?thesis
        proof (cases ms)
          case Nil
          then have "offline_loop e sample since limit rest acc wb = (r, w1)"
            using Cons.prems p \<open>r1 = Inr created\<close> False m Inr by simp
          from u2 Cons.IH[OF this] show ?thesis by (rule untouched_trans)
        next
          case (Cons m0 ms0)
          let ?acc1 = "acc @ [offline_thread sample tp created (earliest m0 ms0)]"
          show ?thesis
          proof (cases "limit_reached limit (length ?acc1)")
            case True
            then have "w1 = wb"
              using Cons.prems p \<open>r1 = Inr created\<close> False m Inr Cons
              by (simp add: Let_def)
            then show ?thesis using u2 by simp
          next
            case f: False
            then have "offline_loop e sample since limit rest ?acc1 wb = (r, w1)"
              using Cons.prems p \<open>r1 = Inr created\<close> False m Inr Cons
              by (simp add: Let_def)
            from u2 Cons.IH[OF this] show ?thesis by (rule untouched_trans)
          qed
        qed
      qed
    qed
  qed
qed

lemma live_loop_untouched:
  "live_loop e d since limit tps acc w = (r, w1) \<Longrightarrow> untouched w w1"
proof (induction tps arbitrary: acc w)
  case Nil
  then show ?case by (simp add: untouched_def)
next
  case (Cons tp rest)
  obtain r1 wa where p: "extract_created_at e tp w = (r1, wa)"
    by (cases "extract_created_at e tp w") auto
  have u1: "untouched w wa" using p by (rule extract_created_at_untouched)
  show ?case
  proof (cases r1)
    case (Inl err)
    then show ?thesis using Cons.prems p u1 by simp
  next
    case (Inr created)
    note r1 = Inr
    show ?thesis
    proof (cases "not_newer since created")
      case True
      then have "live_loop e d since limit rest acc wa = (r, w1)"
        using Cons.prems p r1 by simp
      from u1 Cons.IH[OF this] show ?thesis by (rule untouched_trans)
    next
      case False
      note nn = False
      show ?thesis
      proof (cases "tp_id tp")
        case None
        then show ?thesis using Cons.prems p r1 nn u1 by simp
      next
        case (Some tid)
        obtain r2 wb where m: "fetch_thread_messages e d tid wa = (r2, wb)"
          by (cases "fetch_thread_messages e d tid wa") auto
        have u2: "untouched w wb"
          using u1 fetch_thread_messages_untouched[OF m] by (rule untouched_trans)
        show ?thesis
        proof (cases r2)
          case (Inl err)
          then show ?thesis using Cons.prems p r1 nn Some m u2 by simp
        next
          case (Inr ms)
          show ?thesis
          proof (cases ms)
            case Nil
            then have "live_loop e d since limit rest acc wb = (r, w1)"
              using Cons.prems p r1 nn Some m Inr by simp
            from u2 Cons.IH[OF this] show ?thesis by (rule untouched_trans)
          next
            case (Cons m0 ms0)
            define t where "t = live_thread d tp tid
               (if created < timestamp (earliest m0 ms0) then timestamp (earliest m0 ms0)
                else created) (earliest m0 ms0)"
            show ?thesis
            proof (cases "limit_reached limit (length (acc @ [t]))")
              case True
              then have "w1 = wb"
                using Cons.prems p r1 nn Some m Inr Cons
                by (simp add: Let_def t_def)
              then show ?thesis using u2 by simp
            next
              case f: False
              then have "live_loop e d since limit rest (acc @ [t]) wb = (r, w1)"
                using Cons.prems p r1 nn Some m Inr Cons
                by (simp add: Let_def t_def)
              from u2 Cons.IH[OF this] show ?thesis by (rule untouched_trans)
            qed
          qed
        qed
      qed
    qed
  qed
qed

lemma fetch_threads_untouched:
  assumes "fetch_threads e d since limit w = Some (r, w1)"
  shows "untouched w w1"
proof (cases "offline_payload d")
  case (Some sample)
  obtain r0 wa where l: "offline_loop e sample since limit (os_threads sample) [] w = (r0, wa)"
    by (cases "offline_loop e sample since limit (os_threads sample) [] w") auto
  have "w1 = wa" using assms Some l
    by (cases r0) (auto simp: fetch_threads_def threads_from_offline_def)
  then show ?thesis using offline_loop_untouched[OF l] by simp
next
  case None
  obtain r0 wa where m: "fetch_channel_metadata e d w = (r0, wa)"
    by (cases "fetch_channel_metadata e d w") auto
  have u0: "untouched w wa" using m by (rule fetch_channel_metadata_untouched)
  show ?thesis
  proof (cases r0)
    case (Inl err)
    then show ?thesis using assms None m u0 by (simp add: fetch_threads_def)
  next
    case (Inr da)
    note r0 = Inr
    obtain r1 wb where c: "collect_threads e da limit wa = Some (r1, wb)"
      using assms None m r0 by (cases "collect_threads e da limit wa") (auto simp: fetch_threads_def)
    have u1: "untouched w wb" using u0 collect_threads_untouched[OF c] by (rule untouched_trans)
    show ?thesis
    proof (cases r1)
      case (Inl err)
      then show ?thesis using assms None m r0 c u1 by (simp add: fetch_threads_def)
    next
      case (Inr collected)
      obtain r2 wc where l: "live_loop e da since limit collected [] wb = (r2, wc)"
        by (cases "live_loop e da since limit collected [] wb") auto
      have "w1 = wc" using assms None m r0 c Inr l
        by (cases r2) (auto simp: fetch_threads_def)
      then show ?thesis using u1 live_loop_untouched[OF l] untouched_trans by blast
    qed
  qed
qed

lemma fetch_threads_appended:
  assumes "fetch_threads e d since limit w = Some (Inr (ths, d1), w1)"
  shows "ths = sort_key created_at (appended_threads e d since limit w)"
  using assms
  by (auto simp: fetch_threads_def appended_threads_def threads_from_offline_def
      split: option.splits prod.splits sum.splits)

lemma client_of_fetched:
  "fetch_threads e d since limit w = Some (Inr (ths, d1), w1) \<Longrightarrow>
   client_of d (fetch_threads e d since limit w) = d1"
  by (simp add: client_of_def)

lemma persist_facts:
  assumes "persist e st c w = (st1, w1)"
  shows "issues w1 = issues w" and "processed st1 = processed st"
    and "ledger_file w1 = Some \<lparr>processed_thread_ids = IdMap (processed st1),
                                  doc_last_synced_at = last_synced_at st1\<rparr>"
    and "c \<noteq> 0 \<or> last_synced_at st = None \<Longrightarrow> st1 = st \<and> now_calls w1 = now_calls w"
    and "c = 0 \<Longrightarrow> last_synced_at st \<noteq> None \<Longrightarrow>
           last_synced_at st1 = Some (isoformat e (clock e (now_calls w))) \<and> now_calls w1 = now_calls w + 1"
  using assms by (auto simp: persist_def save_def now_def Let_def split: if_splits)

text \<open>What a successful run is made of.\<close>

lemma run_parts:
  assumes "run e config d st since max_threads w = Some (Inr (n, st2, d1), w3)"
  shows "\<exists>ths w1 st1 w2.
           fetch_threads e d since (Some (effective_limit config max_threads)) w
             = Some (Inr (ths, d1), w1)
         \<and> run_loop e config d1 ths st 0 w1 = (Inr (st1, n), w2)
         \<and> persist e st1 n w2 = (st2, w3)"
proof -
  let ?L = "Some (effective_limit config max_threads)"
  obtain r1 w1 where f: "fetch_threads e d since ?L w = Some (r1, w1)"
    using assms by (cases "fetch_threads e d since ?L w") (auto simp: run_def)
  obtain ths da where r1: "r1 = Inr (ths, da)"
    using assms f by (cases r1) (auto simp: run_def)
  obtain r2 w2 where l: "run_loop e config da ths st 0 w1 = (r2, w2)"
    by (cases "run_loop e config da ths st 0 w1") auto
  obtain st1 c where r2: "r2 = Inr (st1, c)"
    using assms f r1 l by (cases r2) (auto simp: run_def)
  obtain sa wa where p: "persist e st1 c w2 = (sa, wa)"
    by (cases "persist e st1 c w2") auto
  have "n = c \<and> st2 = sa \<and> d1 = da \<and> w3 = wa"
    using assms f r1 l r2 p by (simp add: run_def)
  then show ?thesis using f r1 l r2 p by blast
qed

section \<open>Properties of a run\<close>

lemma run_loop_synced:
  "run_loop e config discord threads st c w = (Inr (st1, c1), w1) \<Longrightarrow>
     (submitted (keys st) threads = [] \<longrightarrow> st1 = st \<and> w1 = w)
   \<and> (submitted (keys st) threads \<noteq> [] \<longrightarrow> last_synced_at st1 \<noteq> None)
   \<and> (last_synced_at st \<noteq> None \<longrightarrow> last_synced_at st1 \<noteq> None)"
proof (induction threads arbitrary: st c w)
  case Nil
  then show ?case by simp
next
  case (Cons t ts)
  show ?case
  proof (cases "has_processed st (thread_id t)")
    case True
    then have "run_loop e config discord ts st c w = (Inr (st1, c1), w1)"
      using Cons.prems by simp
    from Cons.IH[OF this] True show ?thesis
      by (simp add: has_processed_keys)
  next
    case False
    then obtain bd where b: "build_body e config t = Inr bd"
      using Cons.prems by (auto split: sum.splits)
    let ?r = "issue_for config discord t bd"
    let ?wa = "w\<lparr>issues := issues w @ [?r]\<rparr>"
    have ci: "create_issue e ?r w = (Inr (), ?wa)"
      using Cons.prems False b by (auto simp: create_issue_def Let_def split: option.splits)
    obtain sa wb where mp: "mark_processed e st (thread_id t) (created_at t) ?wa = (sa, wb)"
      by (cases "mark_processed e st (thread_id t) (created_at t) ?wa") auto
    have sa: "last_synced_at sa \<noteq> None"
      using mp by (auto simp: mark_processed_def now_def)
    have rec: "run_loop e config discord ts sa (c + 1) wb = (Inr (st1, c1), w1)"
      using Cons.prems False b ci mp by simp
    have "last_synced_at st1 \<noteq> None" using Cons.IH[OF rec] sa by simp
    then show ?thesis using False by (simp add: has_processed_keys)
  qed
qed

lemma dom_fold_update:
  "fst ` set (fold (\<lambda>(k, v). AList.update k v) kvs acc) = fst ` set acc \<union> fst ` set kvs"
proof (induction kvs arbitrary: acc)
  case Nil
  then show ?case by simp
next
  case (Cons kv kvs)
  obtain k v where kv: "kv = (k, v)" by (cases kv)
  show ?case unfolding kv using Cons.IH[of "AList.update k v acc"]
    by (auto simp: dom_update)
qed

lemma keys_dict_of: "fst ` set (dict_of m) = fst ` set m"
  using dom_fold_update[of m "[]"] by (simp add: dict_of_def)

lemma keys_load_saved:
  "ledger_file w = Some \<lparr>processed_thread_ids = IdMap (processed st),
                         doc_last_synced_at = last_synced_at st\<rparr>
   \<Longrightarrow> keys (load sx w) = keys st"
  by (simp add: load_def keys_def keys_dict_of)

text \<open>All a successful run does, in one statement.\<close>

lemma run_summary:
  assumes r: "run e config d st since max_threads w = Some (Inr (n, st2, d1), w3)"
  defines "ths \<equiv> submitted_threads e config d st since max_threads w"
  shows "sorted (map created_at ths)"
    and "issues w3 = issues w @ map (request_of e config d1) ths"
    and "processed st2 = processed st @ map (entry_of e) ths"
    and "n = length ths"
    and "keys st2 = keys st \<union> thread_id ` set (threads_of
            (fetch_threads e d since (Some (effective_limit config max_threads)) w))"
    and "ledger_file w3 = Some \<lparr>processed_thread_ids = IdMap (processed st2),
                                  doc_last_synced_at = last_synced_at st2\<rparr>"
    and "n = 0 \<Longrightarrow> last_synced_at st = None \<Longrightarrow> last_synced_at st2 = None"
    and "n = 0 \<Longrightarrow> last_synced_at st \<noteq> None \<Longrightarrow>
           last_synced_at st2 = Some (isoformat e (clock e (now_calls w3 - 1)))"
    and "n \<noteq> 0 \<Longrightarrow> last_synced_at st2 \<noteq> None"
proof -
  let ?L = "Some (effective_limit config max_threads)"
  obtain fts w1 st1 w2 where f: "fetch_threads e d since ?L w = Some (Inr (fts, d1), w1)"
    and l: "run_loop e config d1 fts st 0 w1 = (Inr (st1, n), w2)"
    and p: "persist e st1 n w2 = (st2, w3)"
    using run_parts[OF r] by blast
  have t: "threads_of (fetch_threads e d since ?L w) = fts" by (simp add: f threads_of_def)
  have ths: "ths = submitted (keys st) fts" by (simp add: ths_def submitted_threads_def t)
  have u: "untouched w w1" and so: "sorted (map created_at fts)"
    using fetch_threads_props[OF f] by simp_all
  have tr: "issues w2 = issues w1 @ map (request_of e config d1) ths"
    "processed st1 = processed st @ map (entry_of e) ths"
    "n = length ths" "keys st1 = keys st \<union> thread_id ` set fts"
    using run_loop_trace[OF l] by (simp_all add: ths)
  have sy: "ths = [] \<longrightarrow> st1 = st \<and> w2 = w1" "ths \<noteq> [] \<longrightarrow> last_synced_at st1 \<noteq> None"
    using run_loop_synced[OF l] by (simp_all add: ths)
  note pf = persist_facts[OF p]
  show "sorted (map created_at ths)" unfolding ths using so by (rule submitted_sorted)
  show "issues w3 = issues w @ map (request_of e config d1) ths"
    using pf(1) tr(1) u by (simp add: untouched_def)
  show "processed st2 = processed st @ map (entry_of e) ths" using pf(2) tr(2) by simp
  show "n = length ths" by (rule tr(3))
  show "keys st2 = keys st \<union> thread_id ` set (threads_of (fetch_threads e d since ?L w))"
    using pf(2) tr(4) t by (simp add: keys_def)
  show "ledger_file w3 = Some \<lparr>processed_thread_ids = IdMap (processed st2),
                                  doc_last_synced_at = last_synced_at st2\<rparr>"
    by (rule pf(3))
  show "last_synced_at st2 = None" if "n = 0" "last_synced_at st = None"
  proof -
    have "st1 = st" using that(1) tr(3) sy(1) by simp
    then show ?thesis using pf(4) that by simp
  qed
  show "last_synced_at st2 = Some (isoformat e (clock e (now_calls w3 - 1)))"
    if "n = 0" "last_synced_at st \<noteq> None"
  proof -
    have "st1 = st" using that(1) tr(3) sy(1) by simp
    then show ?thesis using pf(5) that by simp
  qed
  show "last_synced_at st2 \<noteq> None" if "n \<noteq> 0"
  proof -
    have "last_synced_at st1 \<noteq> None" using that tr(3) sy(2) by simp
    then show ?thesis using pf(4) that by simp
  qed
qed

section \<open>Properties of a request\<close>



lemma raised_by_not_runtime: "raised_by resp \<noteq> Inl RuntimeError"
  by (cases resp) (auto simp: raised_by_def)





lemma threads_of_Some:
  "threads_of r \<noteq> [] \<Longrightarrow> \<exists>d w. r = Some (Inr (threads_of r, d), w)"
  by (auto simp: threads_of_def split: option.splits sum.splits prod.splits)

lemma fetched_sorted: "sorted (map created_at (threads_of (fetch_threads e d since limit w)))"
proof (cases "threads_of (fetch_threads e d since limit w) = []")
  case True
  then show ?thesis by simp
next
  case False
  from threads_of_Some[OF this] obtain d1 w1 where
    "fetch_threads e d since limit w
       = Some (Inr (threads_of (fetch_threads e d since limit w), d1), w1)" by blast
  then show ?thesis by (rule fetch_threads_props(2))
qed

lemma fetched_stable:
  "filter (\<lambda>t. created_at t = k) (threads_of (fetch_threads e d since limit w))
     = filter (\<lambda>t. created_at t = k) (appended_threads e d since limit w)
   \<or> threads_of (fetch_threads e d since limit w) = []"
proof (cases "threads_of (fetch_threads e d since limit w) = []")
  case True
  then show ?thesis by simp
next
  case False
  from threads_of_Some[OF this] obtain d1 w1 where
    "fetch_threads e d since limit w
       = Some (Inr (threads_of (fetch_threads e d since limit w), d1), w1)" by blast
  from fetch_threads_appended[OF this]
  have "threads_of (fetch_threads e d since limit w)
          = sort_key created_at (appended_threads e d since limit w)" .
  then show ?thesis by (simp add: sort_key_stable)
qed

lemma submitted_ties:
  "subseq (filter (\<lambda>t. created_at t = k)
             (submitted S (threads_of (fetch_threads e d since limit w))))
          (appended_threads e d since limit w)"
proof -
  let ?f = "threads_of (fetch_threads e d since limit w)"
  let ?P = "\<lambda>t. created_at t = k"
  from fetched_stable[of k e d since limit w] show ?thesis
  proof
    assume eq: "filter ?P ?f = filter ?P (appended_threads e d since limit w)"
    have "subseq (filter ?P (submitted S ?f)) (filter ?P ?f)"
      using submitted_subseq by (rule subseq_filter)
    then have "subseq (filter ?P (submitted S ?f)) (filter ?P (appended_threads e d since limit w))"
      using eq by simp
    moreover have "subseq (filter ?P (appended_threads e d since limit w))
                     (appended_threads e d since limit w)" by simp
    ultimately show ?thesis by (rule subseq_order.trans)
  next
    assume "?f = []"
    then show ?thesis by simp
  qed
qed

lemma run_all_skipped:
  assumes f: "fetch_threads e d since (Some (effective_limit config max_threads)) w
                = Some (Inr (ths, d1), w1)"
    and k: "thread_id ` set ths \<subseteq> keys st"
  shows "count_of (run e config d st since max_threads w) = Some 0"
    and "issues_of (run e config d st since max_threads w) = issues w"
proof -
  have l: "run_loop e config d1 ths st 0 w1 = (Inr (st, 0), w1)"
    using k by (rule run_loop_all_skipped)
  obtain st2 w2 where p: "persist e st 0 w1 = (st2, w2)"
    by (cases "persist e st 0 w1") auto
  have r: "run e config d st since max_threads w = Some (Inr (0, st2, d1), w2)"
    by (simp add: run_def f l p)
  have "issues w2 = issues w1" using persist_facts(1)[OF p] .
  moreover have "issues w1 = issues w"
    using fetch_threads_props(1)[OF f] by (simp add: untouched_def)
  ultimately show "count_of (run e config d st since max_threads w) = Some 0"
    and "issues_of (run e config d st since max_threads w) = issues w"
    by (simp_all add: r count_of_def issues_of_def)
qed

section \<open>The claims\<close>

subsection \<open>Template engine\<close>



subsection \<open>Labels\<close>

text \<open>
  C6, as the code has it. \<open>_build_labels\<close> returns the default labels in order, followed
  for each applied tag in order by its mapped labels when the map has a non-empty list
  for the tag, else (no entry, or an empty list) by one fallback label: the
  white-space-trimmed concatenation of the fallback prefix and the display name, itself
  trimmed, put in lower case, with hyphens for spaces, and replaced by \<open>untitled\<close> when
  nothing is left; every label is kept at its first occurrence only. Defaults
  \<open>["discord", "triage"]\<close> and a tag mapped to \<open>["discord"]\<close> give \<open>"discord"\<close> once, the
  defaults first; the unmapped tag \<open>Crash Report\<close> gives \<open>discord/tag/crash-report\<close>.
\<close>

theorem build_labels_first_occurrences:
  "build_labels config discord thread =
     dedup (default_labels config
            @ concat (map (tag_labels config discord) (applied_tag_ids thread)))
   \<and> build_labels (test_config\<lparr>tag_label_map := [''t1'' \<mapsto> [''discord'']]\<rparr>) test_client
         (test_thread ''1'' ''Crash'' 0 [''t1'']) = [''discord'', ''triage'']
   \<and> build_labels test_config (test_client\<lparr>available_tags := [(''t2'', ''Crash Report'')]\<rparr>)
         (test_thread ''1'' ''Crash'' 0 [''t2''])
       = [''discord'', ''triage'', ''discord/tag/crash-report'']"
proof (intro conjI)
  show "build_labels config discord thread =
     dedup (default_labels config
            @ concat (map (tag_labels config discord) (applied_tag_ids thread)))"
    by (rule build_labels_eq)
next
  show "build_labels (test_config\<lparr>tag_label_map := [''t1'' \<mapsto> [''discord'']]\<rparr>) test_client
         (test_thread ''1'' ''Crash'' 0 [''t1'']) = [''discord'', ''triage'']"
    by code_simp
next
  show "build_labels test_config (test_client\<lparr>available_tags := [(''t2'', ''Crash Report'')]\<rparr>)
         (test_thread ''1'' ''Crash'' 0 [''t2''])
       = [''discord'', ''triage'', ''discord/tag/crash-report'']"
    by code_simp
qed

text \<open>
  C6 as it is worded fails: a tag mapped to the empty list gets the fallback label, where
  the wording gives it no label; and a display name with a leading space is trimmed
  before the spaces become hyphens.
\<close>

theorem build_labels_spec_counterexample:
  "build_labels (test_config\<lparr>default_labels := [], tag_label_map := [''t1'' \<mapsto> []]\<rparr>)
       test_client (test_thread ''1'' ''Crash'' 0 [''t1'']) = [''discord/tag/t1'']
   \<and> spec_build_labels (test_config\<lparr>default_labels := [], tag_label_map := [''t1'' \<mapsto> []]\<rparr>)
       test_client (test_thread ''1'' ''Crash'' 0 [''t1'']) = []
   \<and> build_labels (test_config\<lparr>default_labels := []\<rparr>)
       (test_client\<lparr>available_tags := [(''t2'', '' Crash Report'')]\<rparr>)
       (test_thread ''1'' ''Crash'' 0 [''t2'']) = [''discord/tag/crash-report'']
   \<and> spec_build_labels (test_config\<lparr>default_labels := []\<rparr>)
       (test_client\<lparr>available_tags := [(''t2'', '' Crash Report'')]\<rparr>)
       (test_thread ''1'' ''Crash'' 0 [''t2'']) = [''discord/tag/-crash-report'']"
  by code_simp

text \<open>
  C10, as the code has it. For a tag identity without an entry in the available tags,
  \<open>resolve_tag_name\<close> returns the identity itself; an applied tag that is also unmapped
  yields the fallback label, which is the white-space-trimmed concatenation of the
  fallback prefix and the sanitized identity, and hence the prefix followed by the
  sanitized identity whenever the prefix does not begin with white space.
\<close>

theorem unresolved_tag_fallback_label:
  assumes "map_of (available_tags discord) tag = None"
    and "tag_label_map config tag = None"
    and "tag \<in> set (applied_tag_ids thread)"
  shows "resolve_tag_name discord tag = tag
    \<and> strip (fallback_label_prefix config @ sanitize_label tag)
         \<in> set (build_labels config discord thread)
    \<and> (fallback_label_prefix config = [] \<or> \<not> isspace (hd (fallback_label_prefix config))
         \<longrightarrow> fallback_label_prefix config @ sanitize_label tag
               \<in> set (build_labels config discord thread))"
proof -
  have r: "resolve_tag_name discord tag = tag"
    using assms(1) by (simp add: resolve_tag_name_def)
  have t: "tag_labels config discord tag = [strip (fallback_label_prefix config @ sanitize_label tag)]"
    using assms(2) r by (simp add: tag_labels_def)
  have "strip (fallback_label_prefix config @ sanitize_label tag)
         \<in> set (tag_labels config discord tag)"
    unfolding t by simp
  then have m: "strip (fallback_label_prefix config @ sanitize_label tag)
         \<in> set (build_labels config discord thread)"
    unfolding set_build_labels using assms(3) by blast
  show ?thesis using r m fallback_verbatim[of "fallback_label_prefix config" tag] by auto
qed


theorem unresolved_tag_fallback_label_witness:
  "map_of (available_tags test_client) ''T9'' = None
   \<and> tag_label_map test_config ''T9'' = None
   \<and> ''T9'' \<in> set (applied_tag_ids (test_thread ''1'' ''Crash'' 0 [''T9'']))
   \<and> \<not> isspace (hd (fallback_label_prefix test_config))
   \<and> resolve_tag_name test_client ''T9'' = ''T9''
   \<and> ''discord/tag/t9'' \<in> set (build_labels test_config test_client
                                   (test_thread ''1'' ''Crash'' 0 [''T9'']))"
proof -
  have 1: "map_of (available_tags test_client) ''T9'' = None" by (simp add: test_client_def)
  have 2: "tag_label_map test_config ''T9'' = None" by (simp add: test_config_def)
  have 3: "''T9'' \<in> set (applied_tag_ids (test_thread ''1'' ''Crash'' 0 [''T9'']))"
    by (simp add: test_thread_def)
  have 4: "\<not> isspace (hd (fallback_label_prefix test_config))"
    by (simp add: test_config_def isspace_def)
  have 5: "fallback_label_prefix test_config @ sanitize_label ''T9'' = ''discord/tag/t9''"
    by code_simp
  show ?thesis
    using unresolved_tag_fallback_label[OF 1 2 3] 1 2 3 4 5 by simp
qed

text \<open>
  C10 as it is worded fails for a prefix that begins with white space: the label is
  trimmed, so it is not the prefix followed by the sanitized identity.
\<close>

theorem unresolved_tag_fallback_label_counterexample:
  "build_labels (test_config\<lparr>default_labels := [], fallback_label_prefix := '' tag/''\<rparr>)
       test_client (test_thread ''1'' ''Crash'' 0 [''T9'']) = [''tag/t9'']
   \<and> fallback_label_prefix (test_config\<lparr>default_labels := [], fallback_label_prefix := '' tag/''\<rparr>)
       @ sanitize_label (resolve_tag_name test_client ''T9'') = '' tag/t9''"
  by code_simp

subsection \<open>Fetching threads\<close>

text \<open>
  C1, as the code has it. In live mode every thread \<open>fetch_threads\<close> emits has a creation
  time that is never earlier than the time of its first message: the loop emits each
  thread with the later of the reported creation time and the time of its first message,
  so a reported time that is earlier is raised to the time of the first message and a
  later one is kept.
\<close>

theorem live_threads_not_before_first_message:
  "(fetch_threads e discord since limit w = Some (Inr (threads, discord1), w1)
      \<and> offline_payload discord = None
    \<longrightarrow> (\<forall>t\<in>set threads. timestamp (first_message t) \<le> created_at t))
   \<and> (live_loop e discord since limit collected [] w = (Inr threads, w1)
    \<longrightarrow> (\<forall>t\<in>set threads. \<exists>tp\<in>set collected. raised_from e tp t))"
proof (intro conjI impI)
  assume "fetch_threads e discord since limit w = Some (Inr (threads, discord1), w1)
      \<and> offline_payload discord = None"
  then show "\<forall>t\<in>set threads. timestamp (first_message t) \<le> created_at t"
    using fetch_threads_props(4) by blast
next
  assume a: "live_loop e discord since limit collected [] w = (Inr threads, w1)"
  have "\<forall>t\<in>set threads. t \<in> set [] \<or> (\<exists>tp\<in>set collected. raised_from e tp t)"
    using live_loop_inv[OF a] by (simp add: limit_reached_def)
  then show "\<forall>t\<in>set threads. \<exists>tp\<in>set collected. raised_from e tp t" by simp
qed


theorem live_threads_not_before_first_message_witness:
  "offline_payload test_client = None
   \<and> map created_at (threads_of (fetch_threads (test_env two_threads) test_client None (Some 10)
         test_world)) = [5000000, 10000000]
   \<and> list_all (\<lambda>t. timestamp (first_message t) \<le> created_at t)
         (threads_of (fetch_threads (test_env two_threads) test_client None (Some 10) test_world))
   \<and> map thread_id (projr (fst (live_loop (test_env two_threads) test_client None (Some 10)
         two_threads [] test_world))) = [''1'', ''2'']
   \<and> list_all (\<lambda>t. list_ex (\<lambda>tp. raised_from (test_env two_threads) tp t) two_threads)
         (projr (fst (live_loop (test_env two_threads) test_client None (Some 10)
            two_threads [] test_world)))"
proof -
  let ?e = "test_env two_threads"
  let ?r = "fetch_threads ?e test_client None (Some 10) test_world"
  let ?l = "live_loop ?e test_client None (Some 10) two_threads [] test_world"
  have off: "offline_payload test_client = None" by (simp add: test_client_def)
  have cr: "map created_at (threads_of ?r) = [5000000, 10000000]" by code_simp
  then have "threads_of ?r \<noteq> []" by auto
  then obtain d w where eq: "?r = Some (Inr (threads_of ?r, d), w)"
    using threads_of_Some by blast
  have ids: "map thread_id (projr (fst ?l)) = [''1'', ''2'']" by code_simp
  have "\<not> isl (fst ?l)" by code_simp
  then have leq: "?l = (Inr (projr (fst ?l)), snd ?l)"
    by (cases ?l; cases "fst ?l") auto
  have 1: "\<forall>t\<in>set (threads_of ?r). timestamp (first_message t) \<le> created_at t"
    using live_threads_not_before_first_message
         [where e = ?e and discord = test_client and since = None and limit = "Some 10"
            and w = test_world and threads = "threads_of ?r" and ?discord1.0 = d and ?w1.0 = w]
      eq off by simp
  have 2: "\<forall>t\<in>set (projr (fst ?l)). \<exists>tp\<in>set two_threads. raised_from ?e tp t"
    using live_threads_not_before_first_message
         [where e = ?e and discord = test_client and since = None and limit = "Some 10"
            and w = test_world and threads = "projr (fst ?l)" and ?w1.0 = "snd ?l"
            and collected = two_threads]
      leq by simp
  show ?thesis using off cr ids 1 2 by (simp add: list_all_iff list_ex_iff)
qed

text \<open>
  C1 as it is worded fails: of the two threads of the example, the one reported as created
  at second 10 with its first message at second 5 is emitted with the creation time 10,
  later than its first message, in live mode and from the offline sample alike; the live
  mode raises the other one from second 3 to second 5, the offline mode leaves it at 3.
\<close>

theorem creation_after_first_message_counterexample:
  "map created_at (threads_of (fetch_threads (test_env two_threads) test_client None (Some 10)
       test_world)) = [5000000, 10000000]
   \<and> map (timestamp \<circ> first_message) (threads_of (fetch_threads (test_env two_threads)
       test_client None (Some 10) test_world)) = [5000000, 5000000]
   \<and> map created_at (threads_of (fetch_threads (test_env two_threads)
       (offline_client two_threads) None (Some 10) test_world)) = [3000000, 10000000]
   \<and> map (timestamp \<circ> first_message) (threads_of (fetch_threads (test_env two_threads)
       (offline_client two_threads) None (Some 10) test_world)) = [5000000, 5000000]"
  by code_simp

text \<open>
  C5, as the code has it. For every \<open>since\<close> and \<open>limit\<close>, the list \<open>fetch_threads\<close> returns,
  live or from the offline sample, is sorted by creation time, holds only threads created
  after \<open>since\<close> when \<open>since\<close> is given, and has at most \<open>limit\<close> entries when \<open>limit\<close> is
  given and positive.
\<close>

theorem fetch_threads_sorted_newer_bounded:
  assumes "fetch_threads e discord since limit w = Some (Inr (threads, discord1), w1)"
  shows "sorted (map created_at threads)
       \<and> (\<forall>s. since = Some s \<longrightarrow> (\<forall>t\<in>set threads. s < created_at t))
       \<and> (\<forall>l. limit = Some l \<and> 0 < l \<longrightarrow> int (length threads) \<le> l)"
proof -
  have ok: "loop_ok since limit threads" and so: "sorted (map created_at threads)"
    using fetch_threads_props[OF assms] by simp_all
  have "\<forall>s. since = Some s \<longrightarrow> (\<forall>t\<in>set threads. s < created_at t)"
    using ok by (auto simp: loop_ok_def not_newer_def)
  moreover have "\<forall>l. limit = Some l \<and> 0 < l \<longrightarrow> int (length threads) \<le> l"
    using ok by (simp add: loop_ok_def)
  ultimately show ?thesis using so by blast
qed

theorem fetch_threads_sorted_newer_bounded_witness:
  "map thread_id (threads_of (fetch_threads (test_env two_threads) (offline_client two_threads)
       (Some 3000000) (Some 1) test_world)) = [''1'']
   \<and> sorted (map created_at (threads_of (fetch_threads (test_env two_threads)
       (offline_client two_threads) (Some 3000000) (Some 1) test_world)))
   \<and> list_all (\<lambda>t. 3000000 < created_at t) (threads_of (fetch_threads (test_env two_threads)
       (offline_client two_threads) (Some 3000000) (Some 1) test_world))
   \<and> length (threads_of (fetch_threads (test_env two_threads)
       (offline_client two_threads) (Some 3000000) (Some 1) test_world)) \<le> 1"
proof -
  let ?r = "fetch_threads (test_env two_threads) (offline_client two_threads)
       (Some 3000000) (Some 1) test_world"
  have ids: "map thread_id (threads_of ?r) = [''1'']" by code_simp
  then have "threads_of ?r \<noteq> []" by auto
  then obtain d w where eq: "?r = Some (Inr (threads_of ?r, d), w)"
    using threads_of_Some by blast
  from fetch_threads_sorted_newer_bounded[OF eq]
  have "sorted (map created_at (threads_of ?r))"
    and "\<forall>t\<in>set (threads_of ?r). 3000000 < created_at t"
    and "int (length (threads_of ?r)) \<le> 1"
    by simp_all
  then show ?thesis using ids by (simp add: list_all_iff)
qed

text \<open>
  C5 as it is worded fails for the limit \<open>0\<close>, which \<open>if limit and ...\<close> takes for no limit:
  both threads are returned, in both modes.
\<close>

theorem fetch_threads_limit_counterexample:
  "map thread_id (threads_of (fetch_threads (test_env two_threads) (offline_client two_threads)
       None (Some 0) test_world)) = [''2'', ''1'']
   \<and> map thread_id (threads_of (fetch_threads (test_env two_threads) test_client
       None (Some 0) test_world)) = [''2'', ''1'']"
  by code_simp

subsection \<open>The run\<close>

text \<open>
  C2. When a run has succeeded, a second run that reuses its ledger (the \<open>StateStore\<close> it
  leaves, or one loaded from the file it wrote) and fetches threads whose identities
  were all fetched by the first run creates no issue: its count is \<open>0\<close> and it makes no
  call of \<open>create_issue\<close>.
\<close>

theorem second_run_creates_nothing:
  assumes "run e config discord st since max_threads w = Some (Inr (n, st1, discord1), w1)"
    and "fetch_threads e2 discord1 since (Some (effective_limit config max_threads)) w1
           = Some (Inr (threads2, discord2), w2)"
    and "thread_id ` set threads2 \<subseteq> thread_id ` set (threads_of
           (fetch_threads e discord since (Some (effective_limit config max_threads)) w))"
  shows "count_of (run e2 config discord1 st1 since max_threads w1) = Some 0
       \<and> issues_of (run e2 config discord1 st1 since max_threads w1) = issues w1
       \<and> count_of (run e2 config discord1 (load sx w1) since max_threads w1) = Some 0"
proof -
  have k1: "keys st1 = keys st \<union> thread_id ` set (threads_of
           (fetch_threads e discord since (Some (effective_limit config max_threads)) w))"
    using run_summary(5)[OF assms(1)] .
  have sub: "thread_id ` set threads2 \<subseteq> keys st1" using assms(3) k1 by blast
  have lf: "ledger_file w1 = Some \<lparr>processed_thread_ids = IdMap (processed st1),
                                  doc_last_synced_at = last_synced_at st1\<rparr>"
    using run_summary(6)[OF assms(1)] .
  have sub2: "thread_id ` set threads2 \<subseteq> keys (load sx w1)"
    using sub keys_load_saved[OF lf] by simp
  show ?thesis
    using run_all_skipped[OF assms(2) sub] run_all_skipped(1)[OF assms(2) sub2] by simp
qed

theorem second_run_creates_nothing_witness:
  "run (test_env two_threads) test_config (offline_client two_threads) test_state None None
       test_world
     = Some (Inr (2, first_state, offline_client two_threads), first_world)
   \<and> map thread_id (threads_of (fetch_threads (test_env two_threads) (offline_client two_threads)
         None (Some (effective_limit test_config None)) first_world)) = [''2'', ''1'']
   \<and> map thread_id (threads_of (fetch_threads (test_env two_threads) (offline_client two_threads)
         None (Some (effective_limit test_config None)) test_world)) = [''2'', ''1'']
   \<and> count_of (run (test_env two_threads) test_config (offline_client two_threads) first_state
         None None first_world) = Some 0
   \<and> issues_of (run (test_env two_threads) test_config (offline_client two_threads) first_state
         None None first_world) = issues first_world
   \<and> count_of (run (test_env two_threads) test_config (offline_client two_threads)
         (load test_state first_world) None None first_world) = Some 0"
proof -
  let ?e = "test_env two_threads"
  let ?d = "offline_client two_threads"
  let ?L = "Some (effective_limit test_config None)"
  have r: "run ?e test_config ?d test_state None None test_world
     = Some (Inr (2, first_state, ?d), first_world)"
    by code_simp
  have i2: "map thread_id (threads_of (fetch_threads ?e ?d None ?L first_world)) = [''2'', ''1'']"
    by code_simp
  have i1: "map thread_id (threads_of (fetch_threads ?e ?d None ?L test_world)) = [''2'', ''1'']"
    by code_simp
  have "threads_of (fetch_threads ?e ?d None ?L first_world) \<noteq> []" using i2 by auto
  then obtain d2 w2 where f2: "fetch_threads ?e ?d None ?L first_world
       = Some (Inr (threads_of (fetch_threads ?e ?d None ?L first_world), d2), w2)"
    using threads_of_Some by blast
  have "set (map thread_id (threads_of (fetch_threads ?e ?d None ?L first_world)))
      \<subseteq> set (map thread_id (threads_of (fetch_threads ?e ?d None ?L test_world)))"
    unfolding i1 i2 by simp
  then have sub: "thread_id ` set (threads_of (fetch_threads ?e ?d None ?L first_world))
      \<subseteq> thread_id ` set (threads_of (fetch_threads ?e ?d None ?L test_world))"
    by simp
  from second_run_creates_nothing[OF r f2 sub, of test_state] r i1 i2 show ?thesis by simp
qed

text \<open>
  C3, as the code has it. The threads a run submits are in ascending order of creation
  time, which is not strict: threads of equal creation time are all submitted, in the
  order in which \<open>fetch_threads\<close> appended them to its list before sorting it. Every run
  that ends, by returning or by an exception, has made its calls of \<open>create_issue\<close> for
  the first threads of that sequence, one call each and in that order, a call that
  GitHub rejected being the last; a run that returns has made them for the whole
  sequence and has appended the ledger entries in that same order.
\<close>

theorem run_submits_in_creation_order:
  assumes "run e config discord st since max_threads w = Some (r, w1)"
  shows "sorted (map created_at (submitted_threads e config discord st since max_threads w))
     \<and> (\<forall>k. subseq (filter (\<lambda>t. created_at t = k)
                        (submitted_threads e config discord st since max_threads w))
                     (appended_threads e discord since
                        (Some (effective_limit config max_threads)) w))
     \<and> (\<exists>j. issues w1 = issues w
               @ map (request_of e config
                        (client_of discord
                           (fetch_threads e discord since
                              (Some (effective_limit config max_threads)) w)))
                     (take j (submitted_threads e config discord st since max_threads w)))
     \<and> (\<forall>n st1 discord1. r = Inr (n, st1, discord1) \<longrightarrow>
           issues w1 = issues w @ map (request_of e config discord1)
                                      (submitted_threads e config discord st since max_threads w)
         \<and> processed st1 = processed st @ map (entry_of e)
                                      (submitted_threads e config discord st since max_threads w))"
proof -
  let ?L = "Some (effective_limit config max_threads)"
  let ?S = "submitted_threads e config discord st since max_threads w"
  have A: "sorted (map created_at ?S)"
    unfolding submitted_threads_def using fetched_sorted by (rule submitted_sorted)
  have B: "\<forall>k. subseq (filter (\<lambda>t. created_at t = k) ?S) (appended_threads e discord since ?L w)"
    unfolding submitted_threads_def using submitted_ties by blast
  have C: "\<exists>j. issues w1 = issues w
               @ map (request_of e config (client_of discord (fetch_threads e discord since ?L w)))
                     (take j ?S)"
  proof -
    obtain r1 wa where f: "fetch_threads e discord since ?L w = Some (r1, wa)"
      using assms by (cases "fetch_threads e discord since ?L w") (auto simp: run_def)
    have u: "issues wa = issues w"
      using fetch_threads_untouched[OF f] by (simp add: untouched_def)
    show ?thesis
    proof (cases r1)
      case (Inl err)
      then have "w1 = wa" using assms f by (simp add: run_def)
      then show ?thesis using u by (intro exI[of _ 0]) simp
    next
      case (Inr p)
      obtain ths d1 where p: "p = (ths, d1)" by (cases p) auto
      have f1: "fetch_threads e discord since ?L w = Some (Inr (ths, d1), wa)"
        using f Inr p by simp
      have c: "client_of discord (fetch_threads e discord since ?L w) = d1"
        using f1 by (rule client_of_fetched)
      have s: "?S = submitted (keys st) ths"
        by (simp add: submitted_threads_def f1 threads_of_def)
      obtain r2 wb where l: "run_loop e config d1 ths st 0 wa = (r2, wb)"
        by (cases "run_loop e config d1 ths st 0 wa") auto
      from run_loop_calls[OF l] obtain j where
        j: "issues wb = issues wa @ map (request_of e config d1) (take j (submitted (keys st) ths))"
        by blast
      have "issues w1 = issues wb"
      proof (cases r2)
        case (Inl err)
        then show ?thesis using assms f1 l by (simp add: run_def)
      next
        case (Inr q)
        obtain st1 c1 where q: "q = (st1, c1)" by (cases q) auto
        obtain sa wc where ps: "persist e st1 c1 wb = (sa, wc)"
          by (cases "persist e st1 c1 wb") auto
        have "w1 = wc" using assms f1 l Inr q ps by (simp add: run_def)
        then show ?thesis using persist_facts(1)[OF ps] by simp
      qed
      then show ?thesis using j u unfolding c s by (intro exI[of _ j]) simp
    qed
  qed
  have D: "\<forall>n st1 discord1. r = Inr (n, st1, discord1) \<longrightarrow>
           issues w1 = issues w @ map (request_of e config discord1) ?S
         \<and> processed st1 = processed st @ map (entry_of e) ?S"
  proof (intro allI impI)
    fix n st1 discord1 assume "r = Inr (n, st1, discord1)"
    then have "run e config discord st since max_threads w = Some (Inr (n, st1, discord1), w1)"
      using assms by simp
    from run_summary(2,3)[OF this]
    show "issues w1 = issues w @ map (request_of e config discord1) ?S
         \<and> processed st1 = processed st @ map (entry_of e) ?S" by simp
  qed
  show ?thesis using A B C D by (intro conjI)
qed


theorem run_submits_in_creation_order_witness:
  "run (test_env two_threads) test_config (offline_client two_threads) test_state None None
       test_world
     = Some (Inr (2, first_state, offline_client two_threads), first_world)
   \<and> map created_at (submitted_threads (test_env two_threads) test_config
         (offline_client two_threads) test_state None None test_world) = [3000000, 10000000]
   \<and> map thread_id (appended_threads (test_env two_threads) (offline_client two_threads) None
         (Some (effective_limit test_config None)) test_world) = [''1'', ''2'']
   \<and> map req_title (issues first_world) = [''[Discord] Freeze'', ''[Discord] Crash'']
   \<and> map fst (processed first_state) = [''2'', ''1'']
   \<and> issues first_world
       = issues test_world
         @ map (request_of (test_env two_threads) test_config (offline_client two_threads))
             (submitted_threads (test_env two_threads) test_config
                (offline_client two_threads) test_state None None test_world)
   \<and> processed first_state
       = processed test_state
         @ map (entry_of (test_env two_threads))
             (submitted_threads (test_env two_threads) test_config
                (offline_client two_threads) test_state None None test_world)
   \<and> run (rejecting_env two_threads) test_config (offline_client two_threads) test_state None
       None test_world
     = Some (Inl (HTTPError 422), test_world\<lparr>issues := [test_request ''[Discord] Freeze'']\<rparr>)"
proof -
  have r: "run (test_env two_threads) test_config (offline_client two_threads) test_state None
       None test_world = Some (Inr (2, first_state, offline_client two_threads), first_world)"
    by code_simp
  have s: "map created_at (submitted_threads (test_env two_threads) test_config
         (offline_client two_threads) test_state None None test_world) = [3000000, 10000000]"
    by code_simp
  have a: "map thread_id (appended_threads (test_env two_threads) (offline_client two_threads)
         None (Some (effective_limit test_config None)) test_world) = [''1'', ''2'']"
    by code_simp
  have t: "map req_title (issues first_world) = [''[Discord] Freeze'', ''[Discord] Crash'']"
    by code_simp
  have p: "map fst (processed first_state) = [''2'', ''1'']"
    by code_simp
  have q: "issues first_world
       = issues test_world
         @ map (request_of (test_env two_threads) test_config (offline_client two_threads))
             (submitted_threads (test_env two_threads) test_config
                (offline_client two_threads) test_state None None test_world)
     \<and> processed first_state
       = processed test_state
         @ map (entry_of (test_env two_threads))
             (submitted_threads (test_env two_threads) test_config
                (offline_client two_threads) test_state None None test_world)"
    using run_submits_in_creation_order[OF r, THEN conjunct2, THEN conjunct2, THEN conjunct2,
            THEN spec, THEN spec, THEN spec]
    by (rule mp) (rule refl)
  have x: "run (rejecting_env two_threads) test_config (offline_client two_threads) test_state
       None None test_world
     = Some (Inl (HTTPError 422), test_world\<lparr>issues := [test_request ''[Discord] Freeze'']\<rparr>)"
    by code_simp
  show ?thesis using r s a t p q[THEN conjunct1] q[THEN conjunct2] x by (intro conjI)
qed

text \<open>
  C3 as it is worded fails: two threads created at the same second are both submitted, so
  the creation times of the submitted threads are not strictly ascending.
\<close>

theorem strictly_ascending_counterexample:
  "count_of (run (test_env twin_threads) test_config (offline_client twin_threads) test_state
       None None test_world) = Some 2
   \<and> map created_at (submitted_threads (test_env twin_threads) test_config
         (offline_client twin_threads) test_state None None test_world) = [5000000, 5000000]
   \<and> map req_title (issues_of (run (test_env twin_threads) test_config
         (offline_client twin_threads) test_state None None test_world))
       = [''[Discord] Crash'', ''[Discord] Freeze'']"
  by code_simp




text \<open>
  C9, as the code has it. The title of every issue a run submits is the concatenation of
  the title prefix and the display name of the thread, trimmed of white space as a
  whole.
\<close>

theorem run_titles_trimmed_whole:
  assumes "run e config discord st since max_threads w = Some (Inr (n, st1, discord1), w1)"
  shows "map req_title (issues w1) =
           map req_title (issues w)
           @ map (\<lambda>t. strip (issue_title_prefix config @ name t))
                 (submitted_threads e config discord st since max_threads w)"
  using run_summary(2)[OF assms]
  by (simp add: request_of_def issue_for_def issue_title_def comp_def)

theorem run_titles_trimmed_whole_witness:
  "run (test_env two_threads) test_config (offline_client two_threads) test_state None None
       test_world
     = Some (Inr (2, first_state, offline_client two_threads), first_world)
   \<and> map req_title (issues first_world)
       = map (\<lambda>t. strip (issue_title_prefix test_config @ name t))
           (submitted_threads (test_env two_threads) test_config (offline_client two_threads)
              test_state None None test_world)"
proof -
  have r: "run (test_env two_threads) test_config (offline_client two_threads) test_state None
       None test_world = Some (Inr (2, first_state, offline_client two_threads), first_world)"
    by code_simp
  have i: "issues test_world = []" by (simp add: test_world_def)
  from run_titles_trimmed_whole[OF r] r i show ?thesis by simp
qed

text \<open>
  C9 as it is worded fails for a display name that begins with a space: the space stays
  behind the prefix.
\<close>

theorem title_prefix_verbatim_counterexample:
  "map req_title (issues_of (run (test_env [test_thread_payload ''1'' '' bug'' (At 5000000)
                                    [test_message_payload ''m1'' (At 5000000)]])
       test_config
       (offline_client [test_thread_payload ''1'' '' bug'' (At 5000000)
                          [test_message_payload ''m1'' (At 5000000)]])
       test_state None None test_world)) = [''[Discord]  bug'']
   \<and> issue_title_prefix test_config @ strip '' bug'' = ''[Discord] bug''"
  by code_simp

subsection \<open>Requests\<close>




end
